theory Spec2Isabelle
  imports Main "HOL-Library.Sublist"
begin

section \<open>Pinterest downloader: the pipeline of \<open>DownloadThread.run\<close>\<close>

text \<open>
  The development embeds the body of \<open>DownloadThread.run\<close> (script.pyw, lines 163-272):
  the page fetch, the four extraction strategies, the removal of duplicates, the
  derivation of a file name, the search for a free path and the download loop.

  Python strings are modelled as \<open>string\<close> (lists of 8-bit characters); \<open>str.lower\<close> is
  modelled on the ASCII letters, which are the only ones the extension tests look at.
  The functions of \<open>os.path\<close> are those of \<open>posixpath\<close> (separator \<open>/\<close>).
  The media type, which the source writes as the two literals \<open>'image'\<close> and \<open>'video'\<close>,
  is a two-valued datatype.
\<close>

subsection \<open>Strings\<close>

definition lower_chr :: "char \<Rightarrow> char" where
  "lower_chr c =
     (let n = (of_char c :: nat) in if 65 \<le> n \<and> n \<le> 90 then char_of (n + 32) else c)"

definition lower :: "string \<Rightarrow> string" where
  "lower s = map lower_chr s"

text \<open>\<open>sub in s\<close> on strings: \<open>sub\<close> occurs in \<open>s\<close> as a contiguous block.\<close>

fun str_in :: "string \<Rightarrow> string \<Rightarrow> bool" where
  "str_in sub [] = (sub = [])"
| "str_in sub (c # cs) = (prefix sub (c # cs) \<or> str_in sub cs)"

text \<open>\<open>any(ext in s for ext in exts)\<close>\<close>

definition any_ext_in :: "string list \<Rightarrow> string \<Rightarrow> bool" where
  "any_ext_in exts s = list_ex (\<lambda>ext. str_in ext s) exts"

text \<open>\<open>s.split(c)\<close> for a one-character separator: never the empty list.\<close>

fun split_chr :: "char \<Rightarrow> string \<Rightarrow> string list" where
  "split_chr c [] = [[]]"
| "split_chr c (x # xs) =
     (if x = c then [] # split_chr c xs
      else (x # hd (split_chr c xs)) # tl (split_chr c xs))"

text \<open>\<open>str(n)\<close> for a natural number: its decimal digits.\<close>

definition digit_chr :: "nat \<Rightarrow> char" where
  "digit_chr d = char_of (48 + d)"

function str_nat :: "nat \<Rightarrow> string" where
  "str_nat n = (if n < 10 then [digit_chr n] else str_nat (n div 10) @ [digit_chr (n mod 10)])"
  by pat_completeness auto
termination
  by (relation "measure id") auto

declare str_nat.simps [simp del]

subsection \<open>Media candidates and the removal of duplicates\<close>

datatype kind = ImageK | VideoK

fun kind_name :: "kind \<Rightarrow> string" where
  "kind_name ImageK = ''image''"
| "kind_name VideoK = ''video''"

type_synonym media = "kind \<times> string"

text \<open>\<open>clean_url = url.split('?')[0]\<close> (line 218)\<close>

definition clean_url :: "string \<Rightarrow> string" where
  "clean_url url = hd (split_chr CHR ''?'' url)"

text \<open>
  A Python \<open>dict\<close> keeps its keys in the order of first insertion; assigning to a key that
  is present replaces the value in place. \<open>unique_media\<close> is such a dictionary, from the
  clean URL to the pair \<open>(media_type, clean_url)\<close>.
\<close>

fun dict_set :: "'k \<Rightarrow> 'v \<Rightarrow> ('k \<times> 'v) list \<Rightarrow> ('k \<times> 'v) list" where
  "dict_set k v [] = [(k, v)]"
| "dict_set k v (p # ps) = (if fst p = k then (k, v) # ps else p # dict_set k v ps)"

definition dict_values :: "('k \<times> 'v) list \<Rightarrow> 'v list" where
  "dict_values d = map snd d"

text \<open>The loop of lines 216-219, started from the dictionary built so far.\<close>

fun unique_media_loop :: "media list \<Rightarrow> (string \<times> media) list \<Rightarrow> (string \<times> media) list" where
  "unique_media_loop [] unique_media = unique_media"
| "unique_media_loop ((media_type, url) # rest) unique_media =
     unique_media_loop rest
       (dict_set (clean_url url) (media_type, clean_url url) unique_media)"

text \<open>Lines 215-221: \<open>media_list\<close> from \<open>media_elements\<close>.\<close>

definition media_list_of :: "media list \<Rightarrow> media list" where
  "media_list_of media_elements = dict_values (unique_media_loop media_elements [])"

subsection \<open>Paths (\<open>posixpath\<close>)\<close>

text \<open>\<open>s.rfind(c)\<close>: the highest index of \<open>c\<close> in \<open>s\<close>, or \<open>-1\<close>.\<close>

fun rfind_chr :: "char \<Rightarrow> string \<Rightarrow> int" where
  "rfind_chr c [] = - 1"
| "rfind_chr c (x # xs) =
     (let r = rfind_chr c xs in if 0 \<le> r then r + 1 else if x = c then 0 else - 1)"

text \<open>\<open>basename(p)\<close>: \<open>i = p.rfind('/') + 1; return p[i:]\<close>\<close>

definition basename :: "string \<Rightarrow> string" where
  "basename p = (let i = rfind_chr CHR ''/'' p + 1 in drop (nat i) p)"

text \<open>
  \<open>splitext(p)\<close> as \<open>genericpath._splitext\<close> computes it: the extension starts at the
  last dot, unless that dot is not after the last separator or only dots stand between
  the separator and it. \<open>splitext_scan\<close> is the \<open>while\<close> loop that looks for a character
  other than a dot in \<open>p[filenameIndex:dotIndex]\<close>.
\<close>

function splitext_scan :: "string \<Rightarrow> nat \<Rightarrow> nat \<Rightarrow> bool" where
  "splitext_scan p filenameIndex dotIndex =
     (if filenameIndex < dotIndex
      then (if take 1 (drop filenameIndex p) \<noteq> ''.'' then True
            else splitext_scan p (filenameIndex + 1) dotIndex)
      else False)"
  by pat_completeness auto
termination
  by (relation "measure (\<lambda>(p, filenameIndex, dotIndex). dotIndex - filenameIndex)") auto

declare splitext_scan.simps [simp del]

definition splitext :: "string \<Rightarrow> string \<times> string" where
  "splitext p =
     (let sepIndex = rfind_chr CHR ''/'' p; dotIndex = rfind_chr CHR ''.'' p
      in if dotIndex > sepIndex \<and> splitext_scan p (nat (sepIndex + 1)) (nat dotIndex)
         then (take (nat dotIndex) p, drop (nat dotIndex) p)
         else (p, []))"

text \<open>\<open>os.path.join(a, b)\<close>\<close>

definition join :: "string \<Rightarrow> string \<Rightarrow> string" where
  "join a b =
     (if prefix ''/'' b then b
      else if a = [] \<or> suffix ''/'' a then a @ b
      else a @ ''/'' @ b)"

subsection \<open>The file name of an item (lines 234-246)\<close>

definition video_exts :: "string list" where
  "video_exts = [''.mp4'', ''.webm'', ''.mov'']"

definition image_exts :: "string list" where
  "image_exts = [''.jpg'', ''.jpeg'', ''.png'', ''.webp'', ''.gif'']"

definition derive_filename :: "kind \<Rightarrow> nat \<Rightarrow> string \<Rightarrow> string" where
  "derive_filename media_type i path =
     (let filename = basename path in
      if filename = [] \<or> CHR ''.'' \<notin> set filename then
        (let ext = (if media_type = VideoK then ''.mp4'' else ''.jpg'')
         in kind_name media_type @ ''_'' @ str_nat (i + 1) @ ext)
      else
        (let current_ext = lower (snd (splitext filename)) in
         if media_type = VideoK \<and> current_ext \<notin> set video_exts
         then fst (splitext filename) @ ''.mp4''
         else if media_type = ImageK \<and> current_ext \<notin> set image_exts
         then fst (splitext filename) @ ''.jpg''
         else filename))"

subsection \<open>A free path for the file (lines 248-255)\<close>

text \<open>
  The loop of lines 252-255 tries \<open>name_1ext\<close>, \<open>name_2ext\<close>, ... where
  \<open>(name, ext) = splitext(filename)\<close>, while \<open>os.path.exists(filepath)\<close> holds. The file
  system is the list of the paths that exist. The loop ends because the numbered paths
  are pairwise different and only finitely many paths exist; the lemmas before
  \<open>unique_loop\<close> are what its termination proof needs.
\<close>

lemma digit_chr_inj: "a < 10 \<Longrightarrow> b < 10 \<Longrightarrow> digit_chr a = digit_chr b \<Longrightarrow> a = b"
  by (simp add: digit_chr_def char_of_eq_iff take_bit_eq_mod)

lemma str_nat_nonempty: "str_nat n \<noteq> []"
  by (subst str_nat.simps) simp

lemma str_nat_inj: "str_nat a = str_nat b \<Longrightarrow> a = b"
proof (induction a arbitrary: b rule: str_nat.induct)
  case (1 n)
  show ?case
  proof (cases "n < 10")
    case True
    then have n: "str_nat n = [digit_chr n]" by (subst str_nat.simps) simp
    show ?thesis
    proof (cases "b < 10")
      case True
      then have "str_nat b = [digit_chr b]" by (subst str_nat.simps) simp
      with n 1(2) \<open>n < 10\<close> True show ?thesis by (auto dest: digit_chr_inj)
    next
      case False
      then have "str_nat b = str_nat (b div 10) @ [digit_chr (b mod 10)]"
        by (subst str_nat.simps) simp
      with n 1(2) str_nat_nonempty[of "b div 10"] show ?thesis by simp
    qed
  next
    case False
    then have n: "str_nat n = str_nat (n div 10) @ [digit_chr (n mod 10)]"
      by (subst str_nat.simps) simp
    show ?thesis
    proof (cases "b < 10")
      case True
      then have "str_nat b = [digit_chr b]" by (subst str_nat.simps) simp
      with n 1(2) str_nat_nonempty[of "n div 10"] show ?thesis by simp
    next
      case b: False
      then have "str_nat b = str_nat (b div 10) @ [digit_chr (b mod 10)]"
        by (subst str_nat.simps) simp
      with n 1(2) have eq: "str_nat (n div 10) = str_nat (b div 10)"
        and d: "digit_chr (n mod 10) = digit_chr (b mod 10)" by simp_all
      from 1(1)[OF False eq] have "n div 10 = b div 10" .
      moreover from d have "n mod 10 = b mod 10" by (rule digit_chr_inj[rotated 2]) simp_all
      ultimately show ?thesis by (metis div_mult_mod_eq)
    qed
  qed
qed

lemma join_inj: "join a (n @ CHR ''_'' # x) = join a (n @ CHR ''_'' # y) \<Longrightarrow> x = y"
  by (cases n) (auto simp: join_def split: if_splits)

text \<open>The path tried with a given counter (lines 253-254).\<close>

definition numbered :: "string \<Rightarrow> string \<Rightarrow> nat \<Rightarrow> string" where
  "numbered save_folder filename counter =
     (let (name, ext) = splitext filename
      in join save_folder (name @ ''_'' @ str_nat counter @ ext))"

lemma numbered_inj: "numbered d f a = numbered d f b \<Longrightarrow> a = b"
  by (auto simp: numbered_def split: prod.splits dest!: join_inj str_nat_inj)

lemma finite_numbered: "finite {k. numbered d f k \<in> set files}"
proof -
  have "inj (numbered d f)" by (rule injI) (rule numbered_inj)
  then have "finite (numbered d f -` set files)" by (rule finite_vimageI[rotated]) simp
  then show ?thesis by (simp add: vimage_def)
qed

definition pending :: "string list \<Rightarrow> string \<Rightarrow> string \<Rightarrow> nat \<Rightarrow> nat" where
  "pending files d f counter = card {k. counter \<le> k \<and> numbered d f k \<in> set files}"

lemma pending_step:
  "pending files d f counter =
     pending files d f (counter + 1) + (if numbered d f counter \<in> set files then 1 else 0)"
proof -
  let ?A = "{k. counter + 1 \<le> k \<and> numbered d f k \<in> set files}"
  have fin: "finite ?A" using finite_numbered[of d f files] by (rule rev_finite_subset) auto
  show ?thesis
  proof (cases "numbered d f counter \<in> set files")
    case True
    then have "{k. counter \<le> k \<and> numbered d f k \<in> set files} = insert counter ?A"
      by (auto simp: le_less Suc_le_eq)
    with fin True show ?thesis by (simp add: pending_def)
  next
    case False
    then have "{k. counter \<le> k \<and> numbered d f k \<in> set files} = ?A"
      by (auto simp: Suc_le_eq le_less)
    with False show ?thesis by (simp add: pending_def)
  qed
qed

function unique_loop :: "string list \<Rightarrow> string \<Rightarrow> string \<Rightarrow> string \<Rightarrow> nat \<Rightarrow> string" where
  "unique_loop files save_folder filename filepath counter =
     (if filepath \<in> set files
      then unique_loop files save_folder filename
             (numbered save_folder filename counter) (counter + 1)
      else filepath)"
  by pat_completeness auto
termination
proof (relation "measure (\<lambda>(files, d, f, filepath, counter).
          pending files d f counter + (if filepath \<in> set files then 1 else 0))")
  show "wf (measure (\<lambda>(files, d, f, filepath, counter).
          pending files d f counter + (if filepath \<in> set files then 1 else 0)))"
    by simp
next
  fix files :: "string list" and save_folder filename filepath :: string and counter :: nat
  assume "filepath \<in> set files"
  then show "((files, save_folder, filename, numbered save_folder filename counter, counter + 1),
              (files, save_folder, filename, filepath, counter))
        \<in> measure (\<lambda>(files, d, f, filepath, counter).
          pending files d f counter + (if filepath \<in> set files then 1 else 0))"
    using pending_step[of files save_folder filename counter] by simp
qed

declare unique_loop.simps [simp del]

definition unique_path :: "string list \<Rightarrow> string \<Rightarrow> string \<Rightarrow> string" where
  "unique_path files save_folder filename =
     unique_loop files save_folder filename (join save_folder filename) 1"

subsection \<open>Exceptions and log lines\<close>

datatype pyexn =
    ConnectionError | MissingSchema | HTTPError int | OSError
  | ValueError | TypeError | AttributeError | JSONDecodeError | ParserRejectedMarkup

text \<open>The messages sent through \<open>log_signal\<close>, one constructor for each format string.\<close>

datatype log_line =
    Accessing string
  | PageFailed
  | NoMedia
  | Found nat nat nat
  | Downloaded kind string nat nat
  | ItemFailed string pyexn
  | AllCompleted
  | CriticalError pyexn

subsection \<open>The parsed document\<close>

text \<open>
  What \<open>BeautifulSoup(text, 'html.parser')\<close> returns: a tree of tags, each with a name, its
  attributes and its contents, and of strings. The document itself is the root tag.
\<close>

datatype node = Tag string "(string \<times> string) list" "node list" | NavigableString string

text \<open>\<open>tag.get(key)\<close>: the value of the attribute, or \<open>None\<close>.\<close>

fun tag_get :: "node \<Rightarrow> string \<Rightarrow> string option" where
  "tag_get (Tag name attrs contents) key = map_of attrs key"
| "tag_get (NavigableString s) key = None"

text \<open>All nodes below a node, in document order.\<close>

fun descendants :: "node \<Rightarrow> node list" where
  "descendants (NavigableString s) = []"
| "descendants (Tag name attrs contents) = concat (map (\<lambda>c. c # descendants c) contents)"

fun matches :: "string \<Rightarrow> (string \<times> string) list \<Rightarrow> node \<Rightarrow> bool" where
  "matches name attrs (NavigableString s) = False"
| "matches name attrs (Tag name' attrs' contents) =
     (name' = name \<and> list_all (\<lambda>(k, v). map_of attrs' k = Some v) attrs)"

text \<open>\<open>tag.find_all(name, attrs)\<close> and \<open>tag.find(name)\<close>\<close>

definition find_all :: "node \<Rightarrow> string \<Rightarrow> (string \<times> string) list \<Rightarrow> node list" where
  "find_all tag name attrs = filter (matches name attrs) (descendants tag)"

definition find_first :: "node \<Rightarrow> string \<Rightarrow> node option" where
  "find_first tag name = (case find_all tag name [] of [] \<Rightarrow> None | r # _ \<Rightarrow> Some r)"

text \<open>
  \<open>tag.string\<close>: the string of a tag whose only child is a string, or whose only child is
  a tag that has one; \<open>None\<close> otherwise.
\<close>

fun tag_string :: "node \<Rightarrow> string option" where
  "tag_string (NavigableString s) = Some s"
| "tag_string (Tag name attrs [child]) = tag_string child"
| "tag_string (Tag name attrs contents) = None"

subsection \<open>JSON values\<close>

datatype pyfloat = Float int int | Infinity bool | NaN

datatype json =
    JNone | JBool bool | JInt int | JFloat pyfloat | JStr string
  | JList "json list" | JDict "(string \<times> json) list"

text \<open>The truth value Python gives to a value in a condition.\<close>

fun truthy :: "json \<Rightarrow> bool" where
  "truthy JNone = False"
| "truthy (JBool b) = b"
| "truthy (JInt i) = (i \<noteq> 0)"
| "truthy (JFloat (Float m e)) = (m \<noteq> 0)"
| "truthy (JFloat f) = True"
| "truthy (JStr s) = (s \<noteq> [])"
| "truthy (JList xs) = (xs \<noteq> [])"
| "truthy (JDict kvs) = (kvs \<noteq> [])"

text \<open>\<open>data.get(key)\<close> on a \<open>dict\<close>: \<open>None\<close> when the key is missing.\<close>

definition dict_get :: "(string \<times> json) list \<Rightarrow> string \<Rightarrow> json" where
  "dict_get kvs key = (case map_of kvs key of None \<Rightarrow> JNone | Some v \<Rightarrow> v)"

text \<open>The truth value of an optional string, and \<open>a or b\<close> on optional strings.\<close>

fun truthy_str :: "string option \<Rightarrow> bool" where
  "truthy_str None = False"
| "truthy_str (Some s) = (s \<noteq> [])"

definition py_or :: "string option \<Rightarrow> string option \<Rightarrow> string option" where
  "py_or a b = (if truthy_str a then a else b)"

subsection \<open>The world outside the program\<close>

text \<open>
  The library calls whose results the program does not control are fields of a record:
  \<^item> \<open>page_get\<close>: \<open>requests.get(self.url, headers=headers)\<close>, which raises or gives
    \<open>(status_code, text)\<close>;
  \<^item> \<open>html_parser\<close>: \<open>BeautifulSoup(text, 'html.parser')\<close>, which raises on markup
    the parser rejects or gives the document;
  \<^item> \<open>urljoin\<close>: \<open>urllib.parse.urljoin\<close>, which raises \<open>ValueError\<close> on some inputs;
  \<^item> \<open>json_loads\<close>: \<open>json.loads\<close> on a string;
  \<^item> \<open>urlparse_path\<close>: \<open>urlparse(url).path\<close>;
  \<^item> \<open>media_get\<close>: \<open>requests.get(media_url, headers=headers, stream=True)\<close>, which raises
    or gives the status code and the exception, if any, that copying the body to the
    file raises (lines 261-262);
  \<^item> \<open>open_wb\<close>: the exception, if any, that \<open>open(filepath, 'wb')\<close> raises.
\<close>

record world =
  page_get :: "string \<Rightarrow> pyexn + int \<times> string"
  html_parser :: "string \<Rightarrow> pyexn + node"
  urljoin :: "string \<Rightarrow> string \<Rightarrow> pyexn + string"
  json_loads :: "string \<Rightarrow> pyexn + json"
  urlparse_path :: "string \<Rightarrow> pyexn + string"
  media_get :: "string \<Rightarrow> pyexn + int \<times> pyexn option"
  open_wb :: "string \<Rightarrow> pyexn option"

subsection \<open>Extraction (lines 180-212)\<close>

text \<open>
  Each loop takes the tags still to visit and \<open>media_elements\<close> as built so far. An
  exception raised by \<open>urljoin\<close> leaves the loop (it is caught at line 271).
\<close>

fun img_loop :: "world \<Rightarrow> string \<Rightarrow> node list \<Rightarrow> media list \<Rightarrow> pyexn + media list" where
  "img_loop w self_url [] media_elements = Inr media_elements"
| "img_loop w self_url (img # img_tags) media_elements =
     (let img_url = py_or (tag_get img ''src'') (tag_get img ''data-src'') in
      if truthy_str img_url \<and> any_ext_in image_exts (lower (the img_url))
      then (case urljoin w self_url (the img_url) of
              Inl e \<Rightarrow> Inl e
            | Inr u \<Rightarrow> img_loop w self_url img_tags (media_elements @ [(ImageK, u)]))
      else img_loop w self_url img_tags media_elements)"

text \<open>\<open>video.find('source') and video.find('source').get('src')\<close>: a tag is always true.\<close>

definition source_src :: "node \<Rightarrow> string option" where
  "source_src video =
     (case find_first video ''source'' of None \<Rightarrow> None | Some source \<Rightarrow> tag_get source ''src'')"

fun video_loop :: "world \<Rightarrow> string \<Rightarrow> node list \<Rightarrow> media list \<Rightarrow> pyexn + media list" where
  "video_loop w self_url [] media_elements = Inr media_elements"
| "video_loop w self_url (video # video_tags) media_elements =
     (let video_url = py_or (tag_get video ''src'') (source_src video) in
      if truthy_str video_url \<and> any_ext_in video_exts (lower (the video_url))
      then (case urljoin w self_url (the video_url) of
              Inl e \<Rightarrow> Inl e
            | Inr u \<Rightarrow> video_loop w self_url video_tags (media_elements @ [(VideoK, u)]))
      else video_loop w self_url video_tags media_elements)"

fun div_loop :: "world \<Rightarrow> string \<Rightarrow> node list \<Rightarrow> media list \<Rightarrow> pyexn + media list" where
  "div_loop w self_url [] media_elements = Inr media_elements"
| "div_loop w self_url (container # containers) media_elements =
     (if truthy_str (tag_get container ''data-video-src'')
      then (case urljoin w self_url (the (tag_get container ''data-video-src'')) of
              Inl e \<Rightarrow> Inl e
            | Inr u \<Rightarrow> div_loop w self_url containers (media_elements @ [(VideoK, u)]))
      else div_loop w self_url containers media_elements)"

text \<open>
  The body of the \<open>try\<close> of lines 204-210 for one script tag: the exception it raises, or
  the elements it appends. \<open>json.loads(None)\<close> raises \<open>TypeError\<close>; \<open>url.lower()\<close> raises
  \<open>AttributeError\<close> unless \<open>url\<close> is a string.
\<close>

definition script_try :: "world \<Rightarrow> node \<Rightarrow> pyexn + media list" where
  "script_try w script =
     (case (case tag_string script of None \<Rightarrow> Inl TypeError | Some s \<Rightarrow> json_loads w s) of
        Inl e \<Rightarrow> Inl e
      | Inr data \<Rightarrow>
          (case data of
             JDict kvs \<Rightarrow>
               if truthy (dict_get kvs ''contentUrl'') then
                 (case dict_get kvs ''contentUrl'' of
                    JStr url \<Rightarrow>
                      (let media_type =
                             (if any_ext_in video_exts (lower url) then VideoK else ImageK)
                       in Inr [(media_type, url)])
                  | _ \<Rightarrow> Inl AttributeError)
               else Inr []
           | _ \<Rightarrow> Inr []))"

text \<open>Lines 203-212: \<open>except: pass\<close> drops the exception and goes on with the next tag.\<close>

fun script_loop :: "world \<Rightarrow> node list \<Rightarrow> media list \<Rightarrow> media list" where
  "script_loop w [] media_elements = media_elements"
| "script_loop w (script # script_tags) media_elements =
     script_loop w script_tags
       (case script_try w script of
          Inl e \<Rightarrow> media_elements
        | Inr new \<Rightarrow> media_elements @ new)"

definition extract_media :: "world \<Rightarrow> string \<Rightarrow> node \<Rightarrow> pyexn + media list" where
  "extract_media w self_url soup =
     (case img_loop w self_url (find_all soup ''img'' []) [] of
        Inl e \<Rightarrow> Inl e
      | Inr m1 \<Rightarrow>
     (case video_loop w self_url (find_all soup ''video'' []) m1 of
        Inl e \<Rightarrow> Inl e
      | Inr m2 \<Rightarrow>
     (case div_loop w self_url
             (find_all soup ''div'' [(''data-test-id'', ''video-component'')]) m2 of
        Inl e \<Rightarrow> Inl e
      | Inr m3 \<Rightarrow>
          Inr (script_loop w
                 (find_all soup ''script'' [(''type'', ''application/ld+json'')]) m3))))"

subsection \<open>The download loop (lines 231-267)\<close>

text \<open>
  The state the run changes: the lines logged, the URLs of the media requests issued,
  and the paths that exist.
\<close>

record state =
  log :: "log_line list"
  fetched :: "string list"
  files :: "string list"

definition emit :: "log_line \<Rightarrow> state \<Rightarrow> state" where
  "emit line s = s\<lparr>log := log s @ [line]\<rparr>"

text \<open>
  The body of the \<open>try\<close> of lines 232-264 up to the end of the \<open>with\<close> block: the exception
  raised or the file name, and the state reached. \<open>raise_for_status\<close> raises for the status
  codes from 400 to 599; the file exists as soon as \<open>open\<close> has succeeded.
\<close>

definition item_body :: "world \<Rightarrow> string \<Rightarrow> nat \<Rightarrow> media \<Rightarrow> state \<Rightarrow> (pyexn + string) \<times> state" where
  "item_body w save_folder i item s =
     (case item of (media_type, media_url) \<Rightarrow>
      (case urlparse_path w media_url of
         Inl e \<Rightarrow> (Inl e, s)
       | Inr path \<Rightarrow>
           (let filename = derive_filename media_type i path;
                filepath = unique_path (files s) save_folder filename;
                s1 = s\<lparr>fetched := fetched s @ [media_url]\<rparr>
            in case media_get w media_url of
                 Inl e \<Rightarrow> (Inl e, s1)
               | Inr (status_code, copy_exn) \<Rightarrow>
                   if 400 \<le> status_code \<and> status_code < 600
                   then (Inl (HTTPError status_code), s1)
                   else (case open_wb w filepath of
                           Some e \<Rightarrow> (Inl e, s1)
                         | None \<Rightarrow>
                             (let s2 = s1\<lparr>files := files s1 @ [filepath]\<rparr>
                              in case copy_exn of
                                   Some e \<Rightarrow> (Inl e, s2)
                                 | None \<Rightarrow> (Inr filename, s2))))))"

text \<open>One turn of the loop: the body, then line 264, or the handler of lines 266-267.\<close>

definition download_item :: "world \<Rightarrow> string \<Rightarrow> nat \<Rightarrow> nat \<Rightarrow> media \<Rightarrow> state \<Rightarrow> state" where
  "download_item w save_folder total_media i item s =
     (case item_body w save_folder i item s of
        (Inr filename, s') \<Rightarrow> emit (Downloaded (fst item) filename (i + 1) total_media) s'
      | (Inl e, s') \<Rightarrow> emit (ItemFailed (snd item) e) s')"

text \<open>\<open>for i, (media_type, media_url) in enumerate(media_list)\<close>, from index \<open>i\<close> on.\<close>

fun download_loop :: "world \<Rightarrow> string \<Rightarrow> nat \<Rightarrow> nat \<Rightarrow> media list \<Rightarrow> state \<Rightarrow> state" where
  "download_loop w save_folder total_media i [] s = s"
| "download_loop w save_folder total_media i (item # rest) s =
     download_loop w save_folder total_media (i + 1) rest
       (download_item w save_folder total_media i item s)"

subsection \<open>The run (lines 163-272)\<close>

definition count_kind :: "kind \<Rightarrow> media list \<Rightarrow> nat" where
  "count_kind k media_list = length (filter (\<lambda>(t, _). t = k) media_list)"

definition run :: "world \<Rightarrow> string \<Rightarrow> string \<Rightarrow> string list \<Rightarrow> state" where
  "run w self_url save_folder files0 =
     (let s0 = \<lparr>log = [Accessing self_url], fetched = [], files = files0\<rparr> in
      case page_get w self_url of
        Inl e \<Rightarrow> emit (CriticalError e) s0
      | Inr (status_code, text) \<Rightarrow>
          if status_code \<noteq> 200 then emit PageFailed s0
          else
            (case html_parser w text of
               Inl e \<Rightarrow> emit (CriticalError e) s0
             | Inr soup \<Rightarrow>
            (case extract_media w self_url soup of
               Inl e \<Rightarrow> emit (CriticalError e) s0
             | Inr media_elements \<Rightarrow>
                 (let media_list = media_list_of media_elements;
                      total_media = length media_list
                  in if media_list = [] then emit NoMedia s0
                     else
                       emit AllCompleted
                         (download_loop w save_folder total_media 0 media_list
                            (emit (Found total_media (count_kind ImageK media_list)
                                     (count_kind VideoK media_list)) s0))))))"

subsection \<open>Notions used to state the properties\<close>

text \<open>
  A dictionary of the loop of lines 216-219 is keyed when its keys are pairwise different
  and every value carries its own key as URL.
\<close>

definition keyed :: "(string \<times> media) list \<Rightarrow> bool" where
  "keyed d = (distinct (map fst d) \<and> (\<forall>(c, m) \<in> set d. snd m = c))"

text \<open>The kind of the last candidate, in extraction order, with a given clean URL.\<close>

definition last_kind :: "string \<Rightarrow> media list \<Rightarrow> kind" where
  "last_kind c cs = fst (last (filter (\<lambda>m. clean_url (snd m) = c) cs))"

text \<open>The line that one turn of the loop logs.\<close>

definition item_line :: "world \<Rightarrow> string \<Rightarrow> nat \<Rightarrow> nat \<Rightarrow> media \<Rightarrow> state \<Rightarrow> log_line" where
  "item_line w d t i item s =
     (case fst (item_body w d i item s) of
        Inr filename \<Rightarrow> Downloaded (fst item) filename (i + 1) t
      | Inl e \<Rightarrow> ItemFailed (snd item) e)"



subsection \<open>An example page and world\<close>

text \<open>
  A page with two images and a video. The media request for \<open>b.jpg\<close> is answered with
  status 404; every other request succeeds. \<open>urljoin\<close> and \<open>urlparse\<close> behave as the
  library does on root-relative references and on URLs of the host \<open>h://p\<close>.
\<close>

definition example_soup :: node where
  "example_soup =
     Tag ''[document]'' []
       [Tag ''img'' [(''src'', ''/a.png'')] [],
        Tag ''img'' [(''src'', ''/b.jpg?x=1'')] [],
        Tag ''video'' [(''src'', ''/c.mp4'')] []]"

definition example_world :: "int \<Rightarrow> node \<Rightarrow> world" where
  "example_world status soup =
     \<lparr>page_get = (\<lambda>u. Inr (status, ''<html>'')),
      html_parser = (\<lambda>t. Inr soup),
      urljoin = (\<lambda>b u. Inr (''h://p'' @ u)),
      json_loads = (\<lambda>s. Inl JSONDecodeError),
      urlparse_path = (\<lambda>u. Inr (drop 5 u)),
      media_get = (\<lambda>u. if u = ''h://p/b.jpg'' then Inr (404, None) else Inr (200, None)),
      open_wb = (\<lambda>p. None)\<rparr>"

text \<open>
  Worlds for the structured-data strategy: the page of the example with one script tag,
  whose text \<open>json.loads\<close> parses to an object with the given \<open>contentUrl\<close>.
\<close>

definition ld_script :: node where
  "ld_script = Tag ''script'' [(''type'', ''application/ld+json'')] [NavigableString ''{..}'']"

definition ld_world :: "json \<Rightarrow> world" where
  "ld_world content_url =
     (example_world 200 (Tag ''[document]'' [] [ld_script]))
       \<lparr>json_loads := \<lambda>s. Inr (JDict [(''contentUrl'', content_url)])\<rparr>"

text \<open>
  The page \<open>https://www.pinterest.com/pin/123/\<close> with an image tag and a structured-data
  block that both give a root-relative reference; \<open>urljoin\<close> resolves such a reference
  against the host of the page.
\<close>

definition pin_soup :: node where
  "pin_soup =
     Tag ''[document]'' []
       [Tag ''img'' [(''src'', ''/static/img1.png'')] [],
        Tag ''script'' [(''type'', ''application/ld+json'')] [NavigableString ''{..}'']]"

definition pin_world :: world where
  "pin_world =
     \<lparr>page_get = (\<lambda>u. Inr (200, ''<html>'')),
      html_parser = (\<lambda>t. Inr pin_soup),
      urljoin = (\<lambda>b u. Inr (''https://www.pinterest.com'' @ u)),
      json_loads = (\<lambda>s. Inr (JDict [(''contentUrl'', JStr ''/static/img2.png'')])),
      urlparse_path = (\<lambda>u. Inr (drop 25 u)),
      media_get = (\<lambda>u. if prefix ''https://'' u then Inr (200, None) else Inl MissingSchema),
      open_wb = (\<lambda>p. None)\<rparr>"

text \<open>
  A page answered with status 200 whose body \<open><![foo[x]]>\<close> has no media element and
  is rejected by the parser: \<open>BeautifulSoup\<close> raises at line 177.
\<close>

definition rejecting_world :: world where
  "rejecting_world =
     (example_world 200 example_soup)
       \<lparr>page_get := \<lambda>u. Inr (200, ''<![foo[x]]>''),
        html_parser := \<lambda>t. Inl ParserRejectedMarkup\<rparr>"

section \<open>Properties\<close>

subsection \<open>The removal of duplicates\<close>

lemma hd_split_chr: "hd (split_chr c s) = takeWhile (\<lambda>x. x \<noteq> c) s"
  by (induction s) auto

lemma clean_url_takeWhile: "clean_url url = takeWhile (\<lambda>x. x \<noteq> CHR ''?'') url"
  by (simp add: clean_url_def hd_split_chr)

lemma map_of_dict_set: "map_of (dict_set k v d) = (map_of d)(k \<mapsto> v)"
  by (induction d) (auto simp: fun_eq_iff)

lemma keys_dict_set:
  "map fst (dict_set k v d) = (if k \<in> fst ` set d then map fst d else map fst d @ [k])"
  by (induction d) auto

lemma distinct_dict_set: "distinct (map fst d) \<Longrightarrow> distinct (map fst (dict_set k v d))"
  by (simp add: keys_dict_set)

lemma set_dict_set_subset: "set (dict_set k v d) \<subseteq> insert (k, v) (set d)"
  by (induction d) auto

lemma keyed_dict_set: "keyed d \<Longrightarrow> keyed (dict_set c (k, c) d)"
  unfolding keyed_def using set_dict_set_subset[of c "(k, c)" d]
  by (auto simp: distinct_dict_set)

lemma keyed_loop: "keyed d \<Longrightarrow> keyed (unique_media_loop cs d)"
  by (induction cs d rule: unique_media_loop.induct) (auto simp: keyed_dict_set)

lemma map_of_loop:
  "map_of (unique_media_loop cs d) c =
     (if c \<in> (\<lambda>m. clean_url (snd m)) ` set cs then Some (last_kind c cs, c) else map_of d c)"
proof (induction cs d rule: unique_media_loop.induct)
  case (1 d)
  then show ?case by simp
next
  case (2 media_type url rest d)
  show ?case
  proof (cases "c \<in> (\<lambda>m. clean_url (snd m)) ` set rest")
    case True
    then have "filter (\<lambda>m. clean_url (snd m) = c) rest \<noteq> []"
      by (auto simp: filter_empty_conv)
    then have "last_kind c ((media_type, url) # rest) = last_kind c rest"
      by (simp add: last_kind_def)
    with True 2 show ?thesis by simp
  next
    case False
    then have "filter (\<lambda>m. clean_url (snd m) = c) rest = []"
      by (auto simp: filter_empty_conv)
    with False 2 show ?thesis
      by (auto simp: map_of_dict_set last_kind_def)
  qed
qed

lemma keyed_filter_values:
  "keyed d \<Longrightarrow> map_of d c = Some m \<Longrightarrow> filter (\<lambda>m. snd m = c) (dict_values d) = [m]"
proof (induction d)
  case Nil
  then show ?case by simp
next
  case (Cons p d)
  obtain c' m' where p: "p = (c', m')" by (cases p)
  from Cons.prems(1) have kd: "keyed d" and m': "snd m' = c'" and fresh: "c' \<notin> fst ` set d"
    and vals: "\<forall>(a, b) \<in> set d. snd b = a"
    by (auto simp: keyed_def p)
  show ?case
  proof (cases "c' = c")
    case True
    have "filter (\<lambda>m. snd m = c) (map snd d) = []"
      using fresh vals True by (fastforce simp: filter_empty_conv image_iff)
    with True Cons.prems(2) m' show ?thesis by (simp add: p dict_values_def)
  next
    case False
    with Cons.prems(2) have "map_of d c = Some m" by (simp add: p)
    from Cons.IH[OF kd this] False m' show ?thesis by (simp add: p dict_values_def)
  qed
qed

lemma keyset_dict_set: "fst ` set (dict_set k v d) = insert k (fst ` set d)"
  by (induction d) auto

lemma keys_loop:
  "fst ` set (unique_media_loop cs d) = fst ` set d \<union> (\<lambda>m. clean_url (snd m)) ` set cs"
  by (induction cs d rule: unique_media_loop.induct) (simp_all add: keyset_dict_set)

text \<open>
  Claim C1. The removal of duplicates keys every candidate by its clean URL, which is the
  URL cut at the first \<open>?\<close>. The clean URLs of the surviving items are pairwise
  different and are exactly the clean URLs of the candidates; for every such clean URL
  exactly one item survives, and its kind is that of the last candidate, in extraction
  order, with that clean URL.
\<close>

theorem dedup_last_write_wins:
  "(\<forall>url. clean_url url = takeWhile (\<lambda>x. x \<noteq> CHR ''?'') url) \<and>
   distinct (map snd (media_list_of cs)) \<and>
   snd ` set (media_list_of cs) = (\<lambda>m. clean_url (snd m)) ` set cs \<and>
   (\<forall>c \<in> (\<lambda>m. clean_url (snd m)) ` set cs.
      filter (\<lambda>m. snd m = c) (media_list_of cs) =
        [(fst (last (filter (\<lambda>m. clean_url (snd m) = c) cs)), c)])"
proof -
  let ?d = "unique_media_loop cs []"
  have k: "keyed ?d" by (rule keyed_loop) (simp add: keyed_def)
  have vals: "map snd (dict_values ?d) = map fst ?d"
    using k by (auto simp: keyed_def dict_values_def)
  have "distinct (map snd (media_list_of cs))"
    using k by (simp add: media_list_of_def vals keyed_def)
  moreover have "snd ` set (media_list_of cs) = (\<lambda>m. clean_url (snd m)) ` set cs"
    using keys_loop[of cs "[]"] arg_cong[OF vals, of set]
    by (simp add: media_list_of_def)
  moreover have "filter (\<lambda>m. snd m = c) (media_list_of cs) =
        [(fst (last (filter (\<lambda>m. clean_url (snd m) = c) cs)), c)]"
    if "c \<in> (\<lambda>m. clean_url (snd m)) ` set cs" for c
  proof -
    from that have "map_of ?d c = Some (last_kind c cs, c)"
      by (simp add: map_of_loop)
    from keyed_filter_values[OF k this] show ?thesis
      by (simp add: media_list_of_def last_kind_def)
  qed
  ultimately show ?thesis by (simp add: clean_url_takeWhile)
qed

theorem dedup_last_write_wins_witness:
  "''a'' \<in> (\<lambda>m. clean_url (snd m)) ` set [(ImageK, ''a?x''), (VideoK, ''b''), (VideoK, ''a?y'')] \<and>
   filter (\<lambda>m. snd m = ''a'')
     (media_list_of [(ImageK, ''a?x''), (VideoK, ''b''), (VideoK, ''a?y'')]) = [(VideoK, ''a'')] \<and>
   media_list_of [(ImageK, ''a?x''), (VideoK, ''b''), (VideoK, ''a?y'')] = [(VideoK, ''a''), (VideoK, ''b'')]"
proof -
  let ?cs = "[(ImageK, ''a?x''), (VideoK, ''b''), (VideoK, ''a?y'')]"
  have mem: "''a'' \<in> (\<lambda>m. clean_url (snd m)) ` set ?cs"
    by (simp add: clean_url_def)
  have "\<forall>c \<in> (\<lambda>m. clean_url (snd m)) ` set ?cs.
      filter (\<lambda>m. snd m = c) (media_list_of ?cs) =
        [(fst (last (filter (\<lambda>m. clean_url (snd m) = c) ?cs)), c)]"
    using dedup_last_write_wins[of ?cs] by blast
  from bspec[OF this mem] have "filter (\<lambda>m. snd m = ''a'') (media_list_of ?cs) = [(VideoK, ''a'')]"
    by (simp add: clean_url_def)
  moreover have "media_list_of ?cs = [(VideoK, ''a''), (VideoK, ''b'')]"
    by (simp add: media_list_of_def dict_values_def clean_url_def)
  ultimately show ?thesis using mem by blast
qed

subsection \<open>The download loop\<close>

lemma item_body_fetched:
  "fetched (snd (item_body w d i item s)) =
     fetched s @ (case urlparse_path w (snd item) of Inl e \<Rightarrow> [] | Inr p \<Rightarrow> [snd item])"
  by (simp add: item_body_def Let_def split: prod.splits sum.splits option.splits)

lemma item_body_log: "log (snd (item_body w d i item s)) = log s"
  by (simp add: item_body_def Let_def split: prod.splits sum.splits option.splits)

lemma download_item_fetched:
  "fetched (download_item w d t i item s) =
     fetched s @ (case urlparse_path w (snd item) of Inl e \<Rightarrow> [] | Inr p \<Rightarrow> [snd item])"
  using item_body_fetched[of w d i item s]
  by (cases "item_body w d i item s") (auto simp: download_item_def emit_def split: sum.splits)

lemma download_item_log:
  "log (download_item w d t i item s) = log s @ [item_line w d t i item s]"
  using item_body_log[of w d i item s]
  by (cases "item_body w d i item s") (auto simp: download_item_def emit_def item_line_def split: sum.splits)

lemma download_loop_fetched:
  "fetched (download_loop w d t i items s) =
     fetched s @ filter (\<lambda>u. case urlparse_path w u of Inl e \<Rightarrow> False | Inr p \<Rightarrow> True)
                   (map snd items)"
  by (induction items arbitrary: i s) (auto simp: download_item_fetched split: sum.splits)

lemma download_loop_append:
  "download_loop w d t i (xs @ ys) s =
     download_loop w d t (i + length xs) ys (download_loop w d t i xs s)"
  by (induction xs arbitrary: i s) simp_all

lemma download_loop_snoc:
  "j < length items \<Longrightarrow>
   download_loop w d t i (take (Suc j) items) s =
     download_item w d t (i + j) (items ! j) (download_loop w d t i (take j items) s)"
  by (simp add: take_Suc_conv_app_nth download_loop_append)

lemma download_loop_log:
  "\<exists>lines. log (download_loop w d t i items s) = log s @ lines \<and> length lines = length items \<and>
     (\<forall>j < length items.
        lines ! j = item_line w d t (i + j) (items ! j) (download_loop w d t i (take j items) s))"
proof (induction items rule: rev_induct)
  case Nil
  then show ?case by simp
next
  case (snoc x xs)
  then obtain lines where l: "log (download_loop w d t i xs s) = log s @ lines"
    and n: "length lines = length xs"
    and each: "\<forall>j < length xs.
        lines ! j = item_line w d t (i + j) (xs ! j) (download_loop w d t i (take j xs) s)"
    by blast
  let ?line = "item_line w d t (i + length xs) x (download_loop w d t i xs s)"
  have "log (download_loop w d t i (xs @ [x]) s) = log s @ (lines @ [?line])"
    by (simp add: download_loop_append download_item_log l)
  moreover have "length (lines @ [?line]) = length (xs @ [x])" using n by simp
  moreover have "\<forall>j < length (xs @ [x]). (lines @ [?line]) ! j =
      item_line w d t (i + j) ((xs @ [x]) ! j) (download_loop w d t i (take j (xs @ [x])) s)"
    using each n by (auto simp: nth_append less_Suc_eq)
  ultimately show ?case by blast
qed

lemma media_list_of_empty: "media_list_of cs = [] \<longleftrightarrow> cs = []"
proof -
  have "media_list_of cs = [] \<longleftrightarrow> fst ` set (unique_media_loop cs []) = {}"
    by (simp add: media_list_of_def dict_values_def)
  also have "\<dots> \<longleftrightarrow> cs = []"
    by (simp add: keys_loop)
  finally show ?thesis .
qed

lemma item_body_filename:
  "fst (item_body w d i item s) = Inr f \<Longrightarrow>
   \<exists>path. urlparse_path w (snd item) = Inr path \<and> f = derive_filename (fst item) i path"
  by (cases item) (auto simp: item_body_def Let_def split: sum.splits option.splits if_splits prod.splits)

lemma item_line_cases:
  "(\<exists>e. item_line w d t i item s = ItemFailed (snd item) e) \<or>
   (\<exists>path. urlparse_path w (snd item) = Inr path \<and>
      item_line w d t i item s =
        Downloaded (fst item) (derive_filename (fst item) i path) (i + 1) t)"
proof (cases "fst (item_body w d i item s)")
  case (Inl e)
  then show ?thesis by (simp add: item_line_def)
next
  case (Inr f)
  from item_body_filename[OF this] Inr show ?thesis by (auto simp: item_line_def)
qed

lemma item_line_network:
  "urlparse_path w (snd item) = Inr path \<Longrightarrow> media_get w (snd item) = Inl e \<Longrightarrow>
   item_line w d t i item s = ItemFailed (snd item) e"
  by (cases item) (simp add: item_line_def item_body_def Let_def)

lemma item_line_status:
  "urlparse_path w (snd item) = Inr path \<Longrightarrow> media_get w (snd item) = Inr (st, c) \<Longrightarrow>
   400 \<le> st \<Longrightarrow> st < 600 \<Longrightarrow>
   item_line w d t i item s = ItemFailed (snd item) (HTTPError st)"
  by (cases item) (simp add: item_line_def item_body_def Let_def)

lemma item_line_disk:
  "urlparse_path w (snd item) = Inr path \<Longrightarrow> media_get w (snd item) = Inr (st, c) \<Longrightarrow>
   \<not> (400 \<le> st \<and> st < 600) \<Longrightarrow>
   open_wb w (unique_path (files s) d (derive_filename (fst item) i path)) = Some e \<Longrightarrow>
   item_line w d t i item s = ItemFailed (snd item) e"
  by (cases item) (auto simp: item_line_def item_body_def Let_def)

lemma item_line_urlparse:
  "urlparse_path w (snd item) = Inl e \<Longrightarrow> item_line w d t i item s = ItemFailed (snd item) e"
  by (cases item) (simp add: item_line_def item_body_def)

lemma item_line_copy:
  "urlparse_path w (snd item) = Inr path \<Longrightarrow> media_get w (snd item) = Inr (st, Some e) \<Longrightarrow>
   \<not> (400 \<le> st \<and> st < 600) \<Longrightarrow>
   open_wb w (unique_path (files s) d (derive_filename (fst item) i path)) = None \<Longrightarrow>
   item_line w d t i item s = ItemFailed (snd item) e"
  by (cases item) (auto simp: item_line_def item_body_def Let_def)

lemma item_line_success:
  "urlparse_path w (snd item) = Inr path \<Longrightarrow> media_get w (snd item) = Inr (st, None) \<Longrightarrow>
   \<not> (400 \<le> st \<and> st < 600) \<Longrightarrow>
   open_wb w (unique_path (files s) d (derive_filename (fst item) i path)) = None \<Longrightarrow>
   item_line w d t i item s =
     Downloaded (fst item) (derive_filename (fst item) i path) (i + 1) t"
  by (cases item) (auto simp: item_line_def item_body_def Let_def)

lemma download_item_files_success:
  "urlparse_path w (snd item) = Inr path \<Longrightarrow> media_get w (snd item) = Inr (st, None) \<Longrightarrow>
   \<not> (400 \<le> st \<and> st < 600) \<Longrightarrow>
   open_wb w (unique_path (files s) d (derive_filename (fst item) i path)) = None \<Longrightarrow>
   files (download_item w d t i item s) =
     files s @ [unique_path (files s) d (derive_filename (fst item) i path)]"
  by (cases item) (auto simp: download_item_def item_body_def emit_def Let_def)

text \<open>The six ways a run can go.\<close>

lemma run_page_raises:
  "page_get w u = Inl e \<Longrightarrow>
   run w u d files0 = \<lparr>log = [Accessing u, CriticalError e], fetched = [], files = files0\<rparr>"
  by (simp add: run_def emit_def)

lemma run_bad_status:
  "page_get w u = Inr (st, text) \<Longrightarrow> st \<noteq> 200 \<Longrightarrow>
   run w u d files0 = \<lparr>log = [Accessing u, PageFailed], fetched = [], files = files0\<rparr>"
  by (simp add: run_def emit_def)

lemma run_parser_raises:
  "page_get w u = Inr (200, text) \<Longrightarrow> html_parser w text = Inl e \<Longrightarrow>
   run w u d files0 = \<lparr>log = [Accessing u, CriticalError e], fetched = [], files = files0\<rparr>"
  by (simp add: run_def emit_def)

lemma run_extract_raises:
  "page_get w u = Inr (200, text) \<Longrightarrow> html_parser w text = Inr soup \<Longrightarrow>
   extract_media w u soup = Inl e \<Longrightarrow>
   run w u d files0 = \<lparr>log = [Accessing u, CriticalError e], fetched = [], files = files0\<rparr>"
  by (simp add: run_def emit_def)

lemma run_no_media:
  "page_get w u = Inr (200, text) \<Longrightarrow> html_parser w text = Inr soup \<Longrightarrow>
   extract_media w u soup = Inr [] \<Longrightarrow>
   run w u d files0 = \<lparr>log = [Accessing u, NoMedia], fetched = [], files = files0\<rparr>"
  by (simp add: run_def emit_def media_list_of_def dict_values_def)

lemma run_downloads:
  "page_get w u = Inr (200, text) \<Longrightarrow> html_parser w text = Inr soup \<Longrightarrow>
   extract_media w u soup = Inr me \<Longrightarrow> me \<noteq> [] \<Longrightarrow>
   run w u d files0 =
     emit AllCompleted
       (download_loop w d (length (media_list_of me)) 0 (media_list_of me)
          \<lparr>log = [Accessing u, Found (length (media_list_of me))
                   (count_kind ImageK (media_list_of me)) (count_kind VideoK (media_list_of me))],
           fetched = [], files = files0\<rparr>)"
  by (simp add: run_def emit_def Let_def media_list_of_empty)

lemma run_cases:
  obtains (page_raises) e where "page_get w u = Inl e"
  | (bad_status) st html where "page_get w u = Inr (st, html)" "st \<noteq> 200"
  | (parser_raises) html e where "page_get w u = Inr (200, html)"
      "html_parser w html = Inl e"
  | (extract_raises) html soup e where "page_get w u = Inr (200, html)"
      "html_parser w html = Inr soup" "extract_media w u soup = Inl e"
  | (no_media) html soup where "page_get w u = Inr (200, html)"
      "html_parser w html = Inr soup" "extract_media w u soup = Inr []"
  | (downloads) html soup me where "page_get w u = Inr (200, html)"
      "html_parser w html = Inr soup" "extract_media w u soup = Inr me" "me \<noteq> []"
proof (cases "page_get w u")
  case (Inl e)
  then show ?thesis by (rule page_raises)
next
  case (Inr r)
  obtain st html where r: "r = (st, html)" by (cases r)
  show ?thesis
  proof (cases "st = 200")
    case False
    with Inr r show ?thesis by (auto intro: bad_status)
  next
    case True
    show ?thesis
    proof (cases "html_parser w html")
      case (Inl e)
      with Inr r True show ?thesis by (auto intro: parser_raises)
    next
      case soup: (Inr soup)
      show ?thesis
      proof (cases "extract_media w u soup")
        case (Inl e)
        with Inr r True soup show ?thesis by (auto intro: extract_raises)
      next
        case me: (Inr me)
        with Inr r True soup show ?thesis by (cases "me = []") (auto intro: no_media downloads)
      qed
    qed
  qed
qed

subsection \<open>The page fetch and the empty result\<close>

text \<open>
  Claim C10. When the page is answered with a status other than 200, the run logs the
  failure once and stops: the log is the access line and the failure line, no media
  request is issued and no file is created; the run is the same whatever the parser,
  \<open>urljoin\<close>, \<open>json.loads\<close>, \<open>urlparse\<close>, the media requests and \<open>open\<close> would have done.
\<close>

theorem page_status_not_200_halts:
  "page_get w self_url = Inr (status_code, html) \<Longrightarrow> status_code \<noteq> 200 \<Longrightarrow>
   run w self_url save_folder files0 =
     \<lparr>log = [Accessing self_url, PageFailed], fetched = [], files = files0\<rparr> \<and>
   run (w\<lparr>html_parser := hp, urljoin := uj, json_loads := jl, urlparse_path := up,
            media_get := mg, open_wb := ow\<rparr>) self_url save_folder files0 =
     run w self_url save_folder files0"
proof -
  assume p: "page_get w self_url = Inr (status_code, html)" and n: "status_code \<noteq> 200"
  let ?w' = "w\<lparr>html_parser := hp, urljoin := uj, json_loads := jl, urlparse_path := up,
                media_get := mg, open_wb := ow\<rparr>"
  from p have p': "page_get ?w' self_url = Inr (status_code, html)" by simp
  from run_bad_status[OF p n] run_bad_status[OF p' n] show ?thesis by simp
qed

theorem page_status_not_200_halts_witness:
  "page_get (example_world 404 example_soup) ''h://p/pin/1/'' = Inr (404, ''<html>'') \<and>
   (404 :: int) \<noteq> 200 \<and>
   run (example_world 404 example_soup) ''h://p/pin/1/'' ''/dl'' [] =
     \<lparr>log = [Accessing ''h://p/pin/1/'', PageFailed], fetched = [], files = []\<rparr>"
proof -
  have h: "page_get (example_world 404 example_soup) ''h://p/pin/1/'' = Inr (404, ''<html>'')"
    by (simp add: example_world_def)
  have n: "(404 :: int) \<noteq> 200" by simp
  from page_status_not_200_halts[OF h n, THEN conjunct1] h n show ?thesis by simp
qed

text \<open>
  Claim C9 as stated fails for a page without any media element that the parser rejects:
  the exception of line 177 is caught at line 271, and the run logs a critical error,
  not that no media was found.
\<close>

theorem no_media_found_counterexample:
  "page_get rejecting_world ''h://p/pin/1/'' = Inr (200, ''<![foo[x]]>'') \<and>
   html_parser rejecting_world ''<![foo[x]]>'' = Inl ParserRejectedMarkup \<and>
   run rejecting_world ''h://p/pin/1/'' ''/dl'' [] =
     \<lparr>log = [Accessing ''h://p/pin/1/'', CriticalError ParserRejectedMarkup],
      fetched = [], files = []\<rparr> \<and>
   NoMedia \<notin> set (log (run rejecting_world ''h://p/pin/1/'' ''/dl'' []))"
proof -
  have p: "page_get rejecting_world ''h://p/pin/1/'' = Inr (200, ''<![foo[x]]>'')"
    by (simp add: rejecting_world_def)
  have h: "html_parser rejecting_world ''<![foo[x]]>'' = Inl ParserRejectedMarkup"
    by (simp add: rejecting_world_def)
  from run_parser_raises[OF p h, of "''/dl''" "[]"] p h show ?thesis by simp
qed

text \<open>
  Claim C9, as amended. When the page is fetched with status 200, the parser accepts the
  body and the four strategies extract no candidate, the list of media items is empty
  and the run logs that no media was found and stops: no media request is issued, no
  file is created, and no error line is logged. A document without any \<open>img\<close>, \<open>video\<close>,
  video-component \<open>div\<close> or structured-data \<open>script\<close> tag is such a page. When the
  parser rejects the body, the run logs a critical error instead, also without any
  media request.
\<close>

theorem no_media_found_halts:
  "(page_get w self_url = Inr (200, html) \<longrightarrow> html_parser w html = Inr soup \<longrightarrow>
    extract_media w self_url soup = Inr [] \<longrightarrow>
      media_list_of [] = [] \<and>
      run w self_url save_folder files0 =
        \<lparr>log = [Accessing self_url, NoMedia], fetched = [], files = files0\<rparr>) \<and>
   (find_all soup ''img'' [] = [] \<longrightarrow> find_all soup ''video'' [] = [] \<longrightarrow>
    find_all soup ''div'' [(''data-test-id'', ''video-component'')] = [] \<longrightarrow>
    find_all soup ''script'' [(''type'', ''application/ld+json'')] = [] \<longrightarrow>
      extract_media w self_url soup = Inr []) \<and>
   (page_get w self_url = Inr (200, html) \<longrightarrow> html_parser w html = Inl e \<longrightarrow>
      run w self_url save_folder files0 =
        \<lparr>log = [Accessing self_url, CriticalError e], fetched = [], files = files0\<rparr>)"
proof -
  have none: "page_get w self_url = Inr (200, html) \<longrightarrow> html_parser w html = Inr soup \<longrightarrow>
    extract_media w self_url soup = Inr [] \<longrightarrow>
      media_list_of [] = [] \<and>
      run w self_url save_folder files0 =
        \<lparr>log = [Accessing self_url, NoMedia], fetched = [], files = files0\<rparr>"
    by (simp add: run_no_media media_list_of_empty)
  have tags: "find_all soup ''img'' [] = [] \<longrightarrow> find_all soup ''video'' [] = [] \<longrightarrow>
    find_all soup ''div'' [(''data-test-id'', ''video-component'')] = [] \<longrightarrow>
    find_all soup ''script'' [(''type'', ''application/ld+json'')] = [] \<longrightarrow>
      extract_media w self_url soup = Inr []"
    by (simp add: extract_media_def)
  have rejected: "page_get w self_url = Inr (200, html) \<longrightarrow> html_parser w html = Inl e \<longrightarrow>
      run w self_url save_folder files0 =
        \<lparr>log = [Accessing self_url, CriticalError e], fetched = [], files = files0\<rparr>"
    by (simp add: run_parser_raises)
  show ?thesis by (rule conjI[OF none conjI[OF tags rejected]])
qed

theorem no_media_found_halts_witness:
  "page_get (example_world 200 (Tag ''[document]'' [] [Tag ''p'' [] [NavigableString ''hi'']]))
     ''h://p/pin/1/'' = Inr (200, ''<html>'') \<and>
   html_parser (example_world 200 (Tag ''[document]'' [] [Tag ''p'' [] [NavigableString ''hi'']]))
     ''<html>'' = Inr (Tag ''[document]'' [] [Tag ''p'' [] [NavigableString ''hi'']]) \<and>
   find_all (Tag ''[document]'' [] [Tag ''p'' [] [NavigableString ''hi'']]) ''img'' [] = [] \<and>
   extract_media (example_world 200 (Tag ''[document]'' [] [Tag ''p'' [] [NavigableString ''hi'']]))
     ''h://p/pin/1/'' (Tag ''[document]'' [] [Tag ''p'' [] [NavigableString ''hi'']]) = Inr [] \<and>
   run (example_world 200 (Tag ''[document]'' [] [Tag ''p'' [] [NavigableString ''hi'']]))
     ''h://p/pin/1/'' ''/dl'' [''/dl/a.png''] =
     \<lparr>log = [Accessing ''h://p/pin/1/'', NoMedia], fetched = [], files = [''/dl/a.png'']\<rparr> \<and>
   run rejecting_world ''h://p/pin/1/'' ''/dl'' [''/dl/a.png''] =
     \<lparr>log = [Accessing ''h://p/pin/1/'', CriticalError ParserRejectedMarkup],
      fetched = [], files = [''/dl/a.png'']\<rparr>"
proof -
  let ?soup = "Tag ''[document]'' [] [Tag ''p'' [] [NavigableString ''hi'']]"
  let ?w = "example_world 200 ?soup"
  have h: "page_get ?w ''h://p/pin/1/'' = Inr (200, ''<html>'')"
    by (simp add: example_world_def)
  have hp: "html_parser ?w ''<html>'' = Inr ?soup"
    by (simp add: example_world_def)
  have t1: "find_all ?soup ''img'' [] = []" and t2: "find_all ?soup ''video'' [] = []"
    and t3: "find_all ?soup ''div'' [(''data-test-id'', ''video-component'')] = []"
    and t4: "find_all ?soup ''script'' [(''type'', ''application/ld+json'')] = []"
    by (simp_all add: find_all_def)
  have x: "extract_media ?w ''h://p/pin/1/'' ?soup = Inr []"
    using no_media_found_halts[where soup = ?soup and w = ?w and self_url = "''h://p/pin/1/''",
        THEN conjunct2, THEN conjunct1] t1 t2 t3 t4
    by blast
  have r: "run ?w ''h://p/pin/1/'' ''/dl'' [''/dl/a.png''] =
     \<lparr>log = [Accessing ''h://p/pin/1/'', NoMedia], fetched = [], files = [''/dl/a.png'']\<rparr>"
    using no_media_found_halts[where soup = ?soup and w = ?w and self_url = "''h://p/pin/1/''"
        and html = "''<html>''" and save_folder = "''/dl''" and ?files0.0 = "[''/dl/a.png'']",
        THEN conjunct1] h hp x
    by blast
  have p': "page_get rejecting_world ''h://p/pin/1/'' = Inr (200, ''<![foo[x]]>'')"
    and h': "html_parser rejecting_world ''<![foo[x]]>'' = Inl ParserRejectedMarkup"
    by (simp_all add: rejecting_world_def)
  have c: "run rejecting_world ''h://p/pin/1/'' ''/dl'' [''/dl/a.png''] =
     \<lparr>log = [Accessing ''h://p/pin/1/'', CriticalError ParserRejectedMarkup],
      fetched = [], files = [''/dl/a.png'']\<rparr>"
    using no_media_found_halts[where w = rejecting_world and self_url = "''h://p/pin/1/''"
        and html = "''<![foo[x]]>''" and e = ParserRejectedMarkup and save_folder = "''/dl''"
        and ?files0.0 = "[''/dl/a.png'']", THEN conjunct2, THEN conjunct2] p' h'
    by blast
  from h hp t1 x r c show ?thesis by blast
qed

subsection \<open>The URL that is requested\<close>

lemma media_list_urls:
  "snd ` set (media_list_of cs) = (\<lambda>m. clean_url (snd m)) ` set cs"
proof -
  have k: "keyed (unique_media_loop cs [])" by (rule keyed_loop) (simp add: keyed_def)
  then have "map snd (dict_values (unique_media_loop cs [])) = map fst (unique_media_loop cs [])"
    by (auto simp: keyed_def dict_values_def)
  from arg_cong[OF this, of set] keys_loop[of cs "[]"] show ?thesis
    by (simp add: media_list_of_def)
qed

lemma clean_url_no_query: "CHR ''?'' \<notin> set (clean_url url)"
  by (auto simp: clean_url_takeWhile dest: set_takeWhileD)

lemma media_list_no_query: "m \<in> set (media_list_of cs) \<Longrightarrow> CHR ''?'' \<notin> set (snd m)"
proof -
  assume "m \<in> set (media_list_of cs)"
  then have "snd m \<in> (\<lambda>m. clean_url (snd m)) ` set cs"
    using media_list_urls[of cs] by (metis imageI)
  then show ?thesis by (auto simp: clean_url_no_query)
qed

lemma run_downloads_log:
  assumes "page_get w u = Inr (200, html)" "html_parser w html = Inr soup"
    "extract_media w u soup = Inr me" "me \<noteq> []"
  shows "\<exists>lines. log (run w u d files0) =
        [Accessing u, Found (length (media_list_of me)) (count_kind ImageK (media_list_of me))
           (count_kind VideoK (media_list_of me))] @ lines @ [AllCompleted] \<and>
      length lines = length (media_list_of me) \<and>
      (\<forall>j < length (media_list_of me). \<exists>s.
          lines ! j = item_line w d (length (media_list_of me)) j (media_list_of me ! j) s)"
proof -
  let ?ml = "media_list_of me"
  let ?s1 = "\<lparr>log = [Accessing u, Found (length ?ml) (count_kind ImageK ?ml)
                   (count_kind VideoK ?ml)], fetched = [], files = files0\<rparr>"
  from download_loop_log[of w d "length ?ml" 0 ?ml ?s1]
  obtain lines where l: "log (download_loop w d (length ?ml) 0 ?ml ?s1) = log ?s1 @ lines"
    and n: "length lines = length ?ml"
    and each: "\<forall>j < length ?ml. lines ! j =
        item_line w d (length ?ml) (0 + j) (?ml ! j) (download_loop w d (length ?ml) 0 (take j ?ml) ?s1)"
    by blast
  have "log (run w u d files0) = log ?s1 @ lines @ [AllCompleted]"
    by (simp add: run_downloads[OF assms] emit_def l)
  with n each show ?thesis by auto
qed

lemma run_downloads_fetched:
  assumes "page_get w u = Inr (200, html)" "html_parser w html = Inr soup"
    "extract_media w u soup = Inr me" "me \<noteq> []"
  shows "fetched (run w u d files0) =
      filter (\<lambda>u. case urlparse_path w u of Inl e \<Rightarrow> False | Inr p \<Rightarrow> True)
        (map snd (media_list_of me))"
  by (simp add: run_downloads[OF assms] emit_def download_loop_fetched)

text \<open>
  Claim C6. Every URL for which the run issues a media request contains no \<open>?\<close> and is
  the clean URL of an extracted candidate; and every file name reported as downloaded
  was derived from the path of the clean URL of an item of the media list, at that
  item's index.
\<close>

theorem requested_url_is_clean_url:
  "(u \<in> set (fetched (run w self_url save_folder files0)) \<longrightarrow>
      CHR ''?'' \<notin> set u \<and>
      (\<exists>html soup media_elements.
          page_get w self_url = Inr (200, html) \<and>
          html_parser w html = Inr soup \<and>
          extract_media w self_url soup = Inr media_elements \<and>
          u \<in> (\<lambda>m. clean_url (snd m)) ` set media_elements)) \<and>
   (Downloaded k f n t \<in> set (log (run w self_url save_folder files0)) \<longrightarrow>
      (\<exists>html soup media_elements url path.
          page_get w self_url = Inr (200, html) \<and>
          html_parser w html = Inr soup \<and>
          extract_media w self_url soup = Inr media_elements \<and>
          (k, url) \<in> set (media_list_of media_elements) \<and>
          CHR ''?'' \<notin> set url \<and>
          urlparse_path w url = Inr path \<and>
          f = derive_filename k (n - 1) path))"
proof (cases rule: run_cases[of w self_url])
  case (page_raises e)
  then show ?thesis by (simp add: run_page_raises)
next
  case (bad_status st html)
  then show ?thesis by (simp add: run_bad_status)
next
  case (parser_raises html e)
  then show ?thesis by (simp add: run_parser_raises)
next
  case (extract_raises html soup e)
  then show ?thesis by (simp add: run_extract_raises)
next
  case (no_media html soup)
  then show ?thesis by (simp add: run_no_media)
next
  case (downloads html soup me)
  let ?ml = "media_list_of me"
  have one: "CHR ''?'' \<notin> set u \<and> u \<in> (\<lambda>m. clean_url (snd m)) ` set me"
    if "u \<in> set (fetched (run w self_url save_folder files0))"
  proof -
    from that have "u \<in> snd ` set ?ml"
      by (auto simp: run_downloads_fetched[OF downloads])
    then show ?thesis using media_list_urls[of me] by (auto simp: clean_url_no_query)
  qed
  have two: "\<exists>url path. (k, url) \<in> set ?ml \<and> CHR ''?'' \<notin> set url \<and>
      urlparse_path w url = Inr path \<and> f = derive_filename k (n - 1) path"
    if "Downloaded k f n t \<in> set (log (run w self_url save_folder files0))"
  proof -
    from run_downloads_log[OF downloads, of save_folder files0]
    obtain lines where l: "log (run w self_url save_folder files0) =
        [Accessing self_url, Found (length ?ml) (count_kind ImageK ?ml) (count_kind VideoK ?ml)]
          @ lines @ [AllCompleted]"
      and n: "length lines = length ?ml"
      and each: "\<forall>j < length ?ml. \<exists>s.
          lines ! j = item_line w save_folder (length ?ml) j (?ml ! j) s"
      by blast
    from that l have "Downloaded k f n t \<in> set lines" by auto
    then obtain j where j: "j < length lines" and lj: "lines ! j = Downloaded k f n t"
      by (auto simp: in_set_conv_nth)
    from each j n obtain s where
      s: "lines ! j = item_line w save_folder (length ?ml) j (?ml ! j) s" by auto
    from item_line_cases[of w save_folder "length ?ml" j "?ml ! j" s] s lj
    obtain path where p: "urlparse_path w (snd (?ml ! j)) = Inr path"
      and eq: "Downloaded k f n t =
          Downloaded (fst (?ml ! j)) (derive_filename (fst (?ml ! j)) j path) (j + 1) (length ?ml)"
      by auto
    from eq have k: "k = fst (?ml ! j)" and f: "f = derive_filename k j path" and nj: "n = j + 1"
      by simp_all
    have mem: "?ml ! j \<in> set ?ml" using j n by simp
    then have "(k, snd (?ml ! j)) \<in> set ?ml" using k by simp
    moreover have "CHR ''?'' \<notin> set (snd (?ml ! j))" using mem by (rule media_list_no_query)
    ultimately show ?thesis using p f nj by auto
  qed
  from one two downloads(1,2,3) show ?thesis by blast
qed

theorem requested_url_is_clean_url_witness:
  "html_parser (example_world 200 example_soup) ''<html>'' = Inr example_soup \<and>
   extract_media (example_world 200 example_soup) ''h://p/pin/1/'' example_soup =
     Inr [(ImageK, ''h://p/a.png''), (ImageK, ''h://p/b.jpg?x=1''), (VideoK, ''h://p/c.mp4'')] \<and>
   ''h://p/b.jpg'' \<in> set (fetched (run (example_world 200 example_soup) ''h://p/pin/1/'' ''/dl'' [])) \<and>
   ''h://p/b.jpg?x=1'' \<notin> set (fetched (run (example_world 200 example_soup) ''h://p/pin/1/'' ''/dl'' [])) \<and>
   Downloaded ImageK ''a.png'' 1 3
     \<in> set (log (run (example_world 200 example_soup) ''h://p/pin/1/'' ''/dl'' [])) \<and>
   (\<exists>html soup media_elements url path.
      page_get (example_world 200 example_soup) ''h://p/pin/1/'' = Inr (200, html) \<and>
      html_parser (example_world 200 example_soup) html = Inr soup \<and>
      extract_media (example_world 200 example_soup) ''h://p/pin/1/'' soup = Inr media_elements \<and>
      (ImageK, url) \<in> set (media_list_of media_elements) \<and>
      CHR ''?'' \<notin> set url \<and>
      urlparse_path (example_world 200 example_soup) url = Inr path \<and>
      ''a.png'' = derive_filename ImageK (1 - 1) path) \<and>
   (\<exists>html soup media_elements.
      page_get (example_world 200 example_soup) ''h://p/pin/1/'' = Inr (200, html) \<and>
      html_parser (example_world 200 example_soup) html = Inr soup \<and>
      extract_media (example_world 200 example_soup) ''h://p/pin/1/'' soup = Inr media_elements \<and>
      ''h://p/b.jpg'' \<in> (\<lambda>m. clean_url (snd m)) ` set media_elements)"
proof -
  let ?w = "example_world 200 example_soup"
  have hp: "html_parser ?w ''<html>'' = Inr example_soup"
    by (simp add: example_world_def)
  have x: "extract_media ?w ''h://p/pin/1/'' example_soup =
      Inr [(ImageK, ''h://p/a.png''), (ImageK, ''h://p/b.jpg?x=1''), (VideoK, ''h://p/c.mp4'')]"
    by code_simp
  have f: "fetched (run ?w ''h://p/pin/1/'' ''/dl'' []) =
      [''h://p/a.png'', ''h://p/b.jpg'', ''h://p/c.mp4'']"
    by code_simp
  have l: "log (run ?w ''h://p/pin/1/'' ''/dl'' []) =
      [Accessing ''h://p/pin/1/'', Found 3 2 1, Downloaded ImageK ''a.png'' 1 3,
       ItemFailed ''h://p/b.jpg'' (HTTPError 404), Downloaded VideoK ''c.mp4'' 3 3, AllCompleted]"
    by code_simp
  have m1: "''h://p/b.jpg'' \<in> set (fetched (run ?w ''h://p/pin/1/'' ''/dl'' []))"
    by (simp add: f)
  have m2: "Downloaded ImageK ''a.png'' 1 3 \<in> set (log (run ?w ''h://p/pin/1/'' ''/dl'' []))"
    by (simp add: l)
  from requested_url_is_clean_url[of "''h://p/b.jpg''" ?w "''h://p/pin/1/''" "''/dl''" "[]"
      ImageK "''a.png''" 1 3] m1 m2 x hp
  show ?thesis by (simp add: f)
qed

subsection \<open>Failures inside the download loop\<close>

text \<open>
  Claim C2. Every item of the list gets its turn and exactly one log line, logged in the
  state the earlier items left, whether they failed or not: a failure line that names
  the item's URL, or a success line; and the media requests issued by the loop are those
  of all the items whose URL parses, in order, whatever the outcome of each. An
  exception of \<open>urlparse\<close>, a network error, a status from 400 to 599, an error on
  opening the file and an error while the body is copied to the file each give the
  failure line with that exception; only when none of them occurs is the success line
  logged, and the file then exists. When the page was fetched and parsed and the
  extraction gave at least one candidate, the log of the run ends with the completion
  line after one line for each item, whatever happened to the items.
\<close>

theorem item_failure_is_isolated:
  "(\<exists>lines. log (download_loop w d t i items s) = log s @ lines \<and>
      length lines = length items \<and>
      (\<forall>j < length items.
         lines ! j =
           item_line w d t (i + j) (items ! j) (download_loop w d t i (take j items) s) \<and>
         ((\<exists>e. lines ! j = ItemFailed (snd (items ! j)) e) \<or>
          (\<exists>f. lines ! j = Downloaded (fst (items ! j)) f (i + j + 1) t)))) \<and>
   fetched (download_loop w d t i items s) =
      fetched s @ filter (\<lambda>u. case urlparse_path w u of Inl e \<Rightarrow> False | Inr p \<Rightarrow> True) (map snd items) \<and>
   (urlparse_path w (snd item) = Inl e \<longrightarrow>
      item_line w d t i item s = ItemFailed (snd item) e) \<and>
   (urlparse_path w (snd item) = Inr path \<longrightarrow> media_get w (snd item) = Inl e \<longrightarrow>
      item_line w d t i item s = ItemFailed (snd item) e) \<and>
   (urlparse_path w (snd item) = Inr path \<longrightarrow> media_get w (snd item) = Inr (st, c) \<longrightarrow>
      400 \<le> st \<and> st < 600 \<longrightarrow>
      item_line w d t i item s = ItemFailed (snd item) (HTTPError st)) \<and>
   (urlparse_path w (snd item) = Inr path \<longrightarrow> media_get w (snd item) = Inr (st, c) \<longrightarrow>
      \<not> (400 \<le> st \<and> st < 600) \<longrightarrow>
      open_wb w (unique_path (files s) d (derive_filename (fst item) i path)) = Some e \<longrightarrow>
      item_line w d t i item s = ItemFailed (snd item) e) \<and>
   (urlparse_path w (snd item) = Inr path \<longrightarrow>
    media_get w (snd item) = Inr (st, Some e) \<longrightarrow> \<not> (400 \<le> st \<and> st < 600) \<longrightarrow>
    open_wb w (unique_path (files s) d (derive_filename (fst item) i path)) = None \<longrightarrow>
      item_line w d t i item s = ItemFailed (snd item) e) \<and>
   (urlparse_path w (snd item) = Inr path \<longrightarrow>
    media_get w (snd item) = Inr (st, None) \<longrightarrow> \<not> (400 \<le> st \<and> st < 600) \<longrightarrow>
    open_wb w (unique_path (files s) d (derive_filename (fst item) i path)) = None \<longrightarrow>
      item_line w d t i item s =
        Downloaded (fst item) (derive_filename (fst item) i path) (i + 1) t \<and>
      files (download_item w d t i item s) =
        files s @ [unique_path (files s) d (derive_filename (fst item) i path)]) \<and>
   (page_get w self_url = Inr (200, html) \<longrightarrow> html_parser w html = Inr soup \<longrightarrow>
    extract_media w self_url soup = Inr media_elements \<longrightarrow> media_elements \<noteq> [] \<longrightarrow>
      last (log (run w self_url d files0)) = AllCompleted \<and>
      (\<exists>lines. log (run w self_url d files0) =
          [Accessing self_url,
           Found (length (media_list_of media_elements))
             (count_kind ImageK (media_list_of media_elements))
             (count_kind VideoK (media_list_of media_elements))] @ lines @ [AllCompleted] \<and>
         length lines = length (media_list_of media_elements)) \<and>
      fetched (run w self_url d files0) =
        filter (\<lambda>u. case urlparse_path w u of Inl e \<Rightarrow> False | Inr p \<Rightarrow> True)
          (map snd (media_list_of media_elements)))"
proof -
  have loop: "(\<exists>lines. log (download_loop w d t i items s) = log s @ lines \<and>
      length lines = length items \<and>
      (\<forall>j < length items.
         lines ! j =
           item_line w d t (i + j) (items ! j) (download_loop w d t i (take j items) s) \<and>
         ((\<exists>e. lines ! j = ItemFailed (snd (items ! j)) e) \<or>
          (\<exists>f. lines ! j = Downloaded (fst (items ! j)) f (i + j + 1) t))))"
  proof -
    from download_loop_log[of w d t i items s]
    obtain lines where l: "log (download_loop w d t i items s) = log s @ lines"
      and n: "length lines = length items"
      and each: "\<forall>j < length items. lines ! j =
          item_line w d t (i + j) (items ! j) (download_loop w d t i (take j items) s)"
      by blast
    have "(\<exists>e. lines ! j = ItemFailed (snd (items ! j)) e) \<or>
          (\<exists>f. lines ! j = Downloaded (fst (items ! j)) f (i + j + 1) t)"
      if "j < length items" for j
      using item_line_cases[of w d t "i + j" "items ! j" "download_loop w d t i (take j items) s"]
        each that by auto
    with l n each show ?thesis by blast
  qed
  have fet: "fetched (download_loop w d t i items s) =
      fetched s @ filter (\<lambda>u. case urlparse_path w u of Inl e \<Rightarrow> False | Inr p \<Rightarrow> True) (map snd items)"
    by (rule download_loop_fetched)
  have parse: "(urlparse_path w (snd item) = Inl e \<longrightarrow>
      item_line w d t i item s = ItemFailed (snd item) e)"
    by (blast intro: item_line_urlparse)
  have net: "(urlparse_path w (snd item) = Inr path \<longrightarrow> media_get w (snd item) = Inl e \<longrightarrow>
      item_line w d t i item s = ItemFailed (snd item) e)"
    by (blast intro: item_line_network)
  have status: "(urlparse_path w (snd item) = Inr path \<longrightarrow> media_get w (snd item) = Inr (st, c) \<longrightarrow>
      400 \<le> st \<and> st < 600 \<longrightarrow>
      item_line w d t i item s = ItemFailed (snd item) (HTTPError st))"
    by (blast intro: item_line_status)
  have disk: "(urlparse_path w (snd item) = Inr path \<longrightarrow> media_get w (snd item) = Inr (st, c) \<longrightarrow>
      \<not> (400 \<le> st \<and> st < 600) \<longrightarrow>
      open_wb w (unique_path (files s) d (derive_filename (fst item) i path)) = Some e \<longrightarrow>
      item_line w d t i item s = ItemFailed (snd item) e)"
    by (blast intro: item_line_disk)
  have copy: "(urlparse_path w (snd item) = Inr path \<longrightarrow>
    media_get w (snd item) = Inr (st, Some e) \<longrightarrow> \<not> (400 \<le> st \<and> st < 600) \<longrightarrow>
    open_wb w (unique_path (files s) d (derive_filename (fst item) i path)) = None \<longrightarrow>
      item_line w d t i item s = ItemFailed (snd item) e)"
    by (blast intro: item_line_copy)
  have ok: "(urlparse_path w (snd item) = Inr path \<longrightarrow>
    media_get w (snd item) = Inr (st, None) \<longrightarrow> \<not> (400 \<le> st \<and> st < 600) \<longrightarrow>
    open_wb w (unique_path (files s) d (derive_filename (fst item) i path)) = None \<longrightarrow>
      item_line w d t i item s =
        Downloaded (fst item) (derive_filename (fst item) i path) (i + 1) t \<and>
      files (download_item w d t i item s) =
        files s @ [unique_path (files s) d (derive_filename (fst item) i path)])"
    by (blast intro: item_line_success download_item_files_success)
  have fin: "(page_get w self_url = Inr (200, html) \<longrightarrow> html_parser w html = Inr soup \<longrightarrow>
    extract_media w self_url soup = Inr media_elements \<longrightarrow> media_elements \<noteq> [] \<longrightarrow>
      last (log (run w self_url d files0)) = AllCompleted \<and>
      (\<exists>lines. log (run w self_url d files0) =
          [Accessing self_url,
           Found (length (media_list_of media_elements))
             (count_kind ImageK (media_list_of media_elements))
             (count_kind VideoK (media_list_of media_elements))] @ lines @ [AllCompleted] \<and>
         length lines = length (media_list_of media_elements)) \<and>
      fetched (run w self_url d files0) =
        filter (\<lambda>u. case urlparse_path w u of Inl e \<Rightarrow> False | Inr p \<Rightarrow> True)
          (map snd (media_list_of media_elements)))"
  proof (intro impI)
    assume a: "page_get w self_url = Inr (200, html)" "html_parser w html = Inr soup"
      "extract_media w self_url soup = Inr media_elements" "media_elements \<noteq> []"
    from run_downloads_log[OF a, of d files0] obtain lines where
      l: "log (run w self_url d files0) =
          [Accessing self_url,
           Found (length (media_list_of media_elements))
             (count_kind ImageK (media_list_of media_elements))
             (count_kind VideoK (media_list_of media_elements))] @ lines @ [AllCompleted]"
      and n: "length lines = length (media_list_of media_elements)"
      by blast
    from l have "last (log (run w self_url d files0)) = AllCompleted" by simp
    with l n run_downloads_fetched[OF a, of d files0]
    show "last (log (run w self_url d files0)) = AllCompleted \<and>
      (\<exists>lines. log (run w self_url d files0) =
          [Accessing self_url,
           Found (length (media_list_of media_elements))
             (count_kind ImageK (media_list_of media_elements))
             (count_kind VideoK (media_list_of media_elements))] @ lines @ [AllCompleted] \<and>
         length lines = length (media_list_of media_elements)) \<and>
      fetched (run w self_url d files0) =
        filter (\<lambda>u. case urlparse_path w u of Inl e \<Rightarrow> False | Inr p \<Rightarrow> True)
          (map snd (media_list_of media_elements))"
      by blast
  qed
  show ?thesis
    by (rule conjI[OF loop conjI[OF fet conjI[OF parse conjI[OF net conjI[OF status conjI[OF disk conjI[OF copy conjI[OF ok fin]]]]]]]])
qed

theorem item_failure_is_isolated_witness:
  "log (run (example_world 200 example_soup) ''h://p/pin/1/'' ''/dl'' []) =
     [Accessing ''h://p/pin/1/'', Found 3 2 1, Downloaded ImageK ''a.png'' 1 3,
      ItemFailed ''h://p/b.jpg'' (HTTPError 404), Downloaded VideoK ''c.mp4'' 3 3, AllCompleted] \<and>
   fetched (run (example_world 200 example_soup) ''h://p/pin/1/'' ''/dl'' []) =
     [''h://p/a.png'', ''h://p/b.jpg'', ''h://p/c.mp4''] \<and>
   last (log (run (example_world 200 example_soup) ''h://p/pin/1/'' ''/dl'' [])) = AllCompleted \<and>
   last (log (run ((example_world 200 example_soup)\<lparr>media_get := \<lambda>u. Inl ConnectionError\<rparr>)
                ''h://p/pin/1/'' ''/dl'' [])) = AllCompleted \<and>
   item_line (example_world 200 example_soup) ''/dl'' 3 1 (ImageK, ''h://p/b.jpg'')
       \<lparr>log = [], fetched = [], files = []\<rparr> =
     ItemFailed ''h://p/b.jpg'' (HTTPError 404) \<and>
   item_line ((example_world 200 example_soup)\<lparr>media_get := \<lambda>u. Inl ConnectionError\<rparr>)
       ''/dl'' 3 0 (ImageK, ''h://p/a.png'') \<lparr>log = [], fetched = [], files = []\<rparr> =
     ItemFailed ''h://p/a.png'' ConnectionError \<and>
   item_line ((example_world 200 example_soup)\<lparr>open_wb := \<lambda>p. Some OSError\<rparr>)
       ''/dl'' 3 0 (ImageK, ''h://p/a.png'') \<lparr>log = [], fetched = [], files = []\<rparr> =
     ItemFailed ''h://p/a.png'' OSError \<and>
   item_line ((example_world 200 example_soup)\<lparr>urlparse_path := \<lambda>u. Inl ValueError\<rparr>)
       ''/dl'' 3 0 (ImageK, ''h://p/a.png'') \<lparr>log = [], fetched = [], files = []\<rparr> =
     ItemFailed ''h://p/a.png'' ValueError \<and>
   item_line ((example_world 200 example_soup)\<lparr>media_get := \<lambda>u. Inr (200, Some ConnectionError)\<rparr>)
       ''/dl'' 3 0 (ImageK, ''h://p/a.png'') \<lparr>log = [], fetched = [], files = []\<rparr> =
     ItemFailed ''h://p/a.png'' ConnectionError \<and>
   item_line (example_world 200 example_soup) ''/dl'' 3 0 (ImageK, ''h://p/a.png'')
       \<lparr>log = [], fetched = [], files = []\<rparr> =
     Downloaded ImageK ''a.png'' 1 3 \<and>
   files (download_item (example_world 200 example_soup) ''/dl'' 3 0 (ImageK, ''h://p/a.png'')
       \<lparr>log = [], fetched = [], files = []\<rparr>) = [''/dl/a.png'']"
proof -
  let ?w = "example_world 200 example_soup"
  let ?wn = "?w\<lparr>media_get := \<lambda>u. Inl ConnectionError\<rparr>"
  let ?wd = "?w\<lparr>open_wb := \<lambda>p. Some OSError\<rparr>"
  let ?wp = "?w\<lparr>urlparse_path := \<lambda>u. Inl ValueError\<rparr>"
  let ?wc = "?w\<lparr>media_get := \<lambda>u. Inr (200, Some ConnectionError)\<rparr>"
  let ?s = "\<lparr>log = [], fetched = [], files = []\<rparr>"
  let ?a = "(ImageK, ''h://p/a.png'')"
  let ?me = "[(ImageK, ''h://p/a.png''), (ImageK, ''h://p/b.jpg?x=1''), (VideoK, ''h://p/c.mp4'')]"
  have p: "page_get ?w ''h://p/pin/1/'' = Inr (200, ''<html>'')"
    and pn: "page_get ?wn ''h://p/pin/1/'' = Inr (200, ''<html>'')"
    and hp: "html_parser ?w ''<html>'' = Inr example_soup"
    and hpn: "html_parser ?wn ''<html>'' = Inr example_soup"
    by (simp_all add: example_world_def)
  have x: "extract_media ?w ''h://p/pin/1/'' example_soup = Inr ?me"
    by code_simp
  have xn: "extract_media ?wn ''h://p/pin/1/'' example_soup = Inr ?me"
    by code_simp
  have ne: "?me \<noteq> []" by simp
  have l: "log (run ?w ''h://p/pin/1/'' ''/dl'' []) =
     [Accessing ''h://p/pin/1/'', Found 3 2 1, Downloaded ImageK ''a.png'' 1 3,
      ItemFailed ''h://p/b.jpg'' (HTTPError 404), Downloaded VideoK ''c.mp4'' 3 3, AllCompleted]"
    by code_simp
  have f: "fetched (run ?w ''h://p/pin/1/'' ''/dl'' []) =
     [''h://p/a.png'', ''h://p/b.jpg'', ''h://p/c.mp4'']"
    by code_simp
  have done1: "last (log (run ?w ''h://p/pin/1/'' ''/dl'' [])) = AllCompleted"
    using item_failure_is_isolated[where w = ?w and self_url = "''h://p/pin/1/''"
        and html = "''<html>''" and soup = example_soup and media_elements = ?me
        and d = "''/dl''" and ?files0.0 = "[]",
        THEN conjunct2, THEN conjunct2, THEN conjunct2, THEN conjunct2,
        THEN conjunct2, THEN conjunct2, THEN conjunct2, THEN conjunct2]
      p hp x ne by blast
  have done2: "last (log (run ?wn ''h://p/pin/1/'' ''/dl'' [])) = AllCompleted"
    using item_failure_is_isolated[where w = ?wn and self_url = "''h://p/pin/1/''"
        and html = "''<html>''" and soup = example_soup and media_elements = ?me
        and d = "''/dl''" and ?files0.0 = "[]",
        THEN conjunct2, THEN conjunct2, THEN conjunct2, THEN conjunct2,
        THEN conjunct2, THEN conjunct2, THEN conjunct2, THEN conjunct2]
      pn hpn xn ne by blast
  have up: "urlparse_path ?w (snd (ImageK, ''h://p/b.jpg'')) = Inr ''/b.jpg''"
    and mg: "media_get ?w (snd (ImageK, ''h://p/b.jpg'')) = Inr (404, None)"
    by (simp_all add: example_world_def)
  have st: "item_line ?w ''/dl'' 3 1 (ImageK, ''h://p/b.jpg'') ?s =
      ItemFailed (snd (ImageK, ''h://p/b.jpg'')) (HTTPError 404)"
    using item_failure_is_isolated[where w = ?w and item = "(ImageK, ''h://p/b.jpg'')" and path = "''/b.jpg''"
        and st = 404 and c = None and d = "''/dl''" and t = 3 and i = 1 and s = ?s,
        THEN conjunct2, THEN conjunct2, THEN conjunct2, THEN conjunct2, THEN conjunct1]
      up mg by simp
  have upn: "urlparse_path ?wn (snd ?a) = Inr ''/a.png''"
    and mgn: "media_get ?wn (snd ?a) = Inl ConnectionError"
    by (simp_all add: example_world_def)
  have net: "item_line ?wn ''/dl'' 3 0 ?a ?s = ItemFailed (snd ?a) ConnectionError"
    using item_failure_is_isolated[where w = ?wn and item = ?a and path = "''/a.png''" and e = ConnectionError
        and d = "''/dl''" and t = 3 and i = 0 and s = ?s,
        THEN conjunct2, THEN conjunct2, THEN conjunct2, THEN conjunct1]
      upn mgn by blast
  have range: "\<not> (400 \<le> (200::int) \<and> (200::int) < 600)" by simp
  have upd: "urlparse_path ?wd (snd ?a) = Inr ''/a.png''"
    and mgd: "media_get ?wd (snd ?a) = Inr (200, None)"
    and od: "open_wb ?wd (unique_path (files ?s) ''/dl''
        (derive_filename (fst ?a) 0 ''/a.png'')) = Some OSError"
    by (simp_all add: example_world_def)
  have disk: "item_line ?wd ''/dl'' 3 0 ?a ?s = ItemFailed (snd ?a) OSError"
    using item_failure_is_isolated[where w = ?wd and item = ?a and path = "''/a.png''" and e = OSError and st = 200
        and c = None and d = "''/dl''" and t = 3 and i = 0 and s = ?s,
        THEN conjunct2, THEN conjunct2, THEN conjunct2, THEN conjunct2, THEN conjunct2, THEN conjunct1]
      upd mgd od range by blast
  have upp: "urlparse_path ?wp (snd ?a) = Inl ValueError"
    by (simp add: example_world_def)
  have parse: "item_line ?wp ''/dl'' 3 0 ?a ?s = ItemFailed (snd ?a) ValueError"
    using item_failure_is_isolated[where w = ?wp and item = ?a and e = ValueError
        and d = "''/dl''" and t = 3 and i = 0 and s = ?s,
        THEN conjunct2, THEN conjunct2, THEN conjunct1]
      upp by blast
  have upc: "urlparse_path ?wc (snd ?a) = Inr ''/a.png''"
    and mgc: "media_get ?wc (snd ?a) = Inr (200, Some ConnectionError)"
    and oc: "open_wb ?wc (unique_path (files ?s) ''/dl''
        (derive_filename (fst ?a) 0 ''/a.png'')) = None"
    by (simp_all add: example_world_def)
  have copy: "item_line ?wc ''/dl'' 3 0 ?a ?s = ItemFailed (snd ?a) ConnectionError"
    using item_failure_is_isolated[where w = ?wc and item = ?a and path = "''/a.png''" and e = ConnectionError and st = 200
        and d = "''/dl''" and t = 3 and i = 0 and s = ?s,
        THEN conjunct2, THEN conjunct2, THEN conjunct2, THEN conjunct2, THEN conjunct2, THEN conjunct2, THEN conjunct1]
      upc mgc oc range by blast
  have upo: "urlparse_path ?w (snd ?a) = Inr ''/a.png''"
    and mgo: "media_get ?w (snd ?a) = Inr (200, None)"
    and oo: "open_wb ?w (unique_path (files ?s) ''/dl''
        (derive_filename (fst ?a) 0 ''/a.png'')) = None"
    by (simp_all add: example_world_def)
  have name: "derive_filename ImageK 0 ''/a.png'' = ''a.png''" by code_simp
  have path: "unique_path [] ''/dl'' ''a.png'' = ''/dl/a.png''" by code_simp
  have ok: "item_line ?w ''/dl'' 3 0 ?a ?s =
        Downloaded (fst ?a) (derive_filename (fst ?a) 0 ''/a.png'') (0 + 1) 3 \<and>
      files (download_item ?w ''/dl'' 3 0 ?a ?s) =
        files ?s @ [unique_path (files ?s) ''/dl'' (derive_filename (fst ?a) 0 ''/a.png'')]"
    using item_failure_is_isolated[where w = ?w and item = ?a and path = "''/a.png''" and st = 200
        and d = "''/dl''" and t = 3 and i = 0 and s = ?s,
        THEN conjunct2, THEN conjunct2, THEN conjunct2, THEN conjunct2, THEN conjunct2, THEN conjunct2, THEN conjunct2, THEN conjunct1]
      upo mgo oo range by blast
  from ok have ok1: "item_line ?w ''/dl'' 3 0 ?a ?s = Downloaded ImageK ''a.png'' 1 3"
    by (simp add: name)
  from ok have ok2: "files (download_item ?w ''/dl'' 3 0 ?a ?s) = [''/dl/a.png'']"
    by (simp add: name path)
  from l f done1 done2 st net disk parse copy ok1 ok2 show ?thesis by simp
qed

subsection \<open>Extraction\<close>

lemma str_in_iff: "str_in sub s \<longleftrightarrow> (\<exists>pre post. s = pre @ sub @ post)"
proof (induction s)
  case Nil
  then show ?case by auto
next
  case (Cons c cs)
  show ?case
  proof
    assume "str_in sub (c # cs)"
    then consider "prefix sub (c # cs)" | "str_in sub cs" by auto
    then show "\<exists>pre post. c # cs = pre @ sub @ post"
    proof cases
      case 1
      then obtain post where "c # cs = sub @ post" by (auto simp: prefix_def)
      then have "c # cs = [] @ sub @ post" by simp
      then show ?thesis by blast
    next
      case 2
      with Cons obtain pre post where "cs = pre @ sub @ post" by auto
      then have "c # cs = (c # pre) @ sub @ post" by simp
      then show ?thesis by blast
    qed
  next
    assume "\<exists>pre post. c # cs = pre @ sub @ post"
    then obtain pre post where e: "c # cs = pre @ sub @ post" by blast
    show "str_in sub (c # cs)"
    proof (cases pre)
      case Nil
      with e have "prefix sub (c # cs)" by (simp add: prefix_def)
      then show ?thesis by simp
    next
      case (Cons a pre')
      with e have "cs = pre' @ sub @ post" by simp
      with Cons.IH show ?thesis by auto
    qed
  qed
qed

lemma any_ext_in_iff:
  "any_ext_in exts s \<longleftrightarrow> (\<exists>ext \<in> set exts. \<exists>pre post. s = pre @ ext @ post)"
  by (simp add: any_ext_in_def list_ex_iff str_in_iff)


lemma any_video_ext_in_nonempty: "any_ext_in video_exts (lower s) \<Longrightarrow> s \<noteq> []"
  by (cases s) (simp_all add: any_ext_in_def video_exts_def lower_def)





lemma dict_get_truthy_str:
  "truthy (dict_get kvs key) \<Longrightarrow> dict_get kvs key = JStr url \<Longrightarrow> url \<noteq> []"
  by auto

text \<open>
  Claim C8 as stated fails: an object whose \<open>contentUrl\<close> is a non-empty list is an
  object with a non-empty \<open>contentUrl\<close>, and the tag gives no candidate (\<open>url.lower()\<close>
  raises inside the \<open>try\<close>).
\<close>

theorem ld_json_content_url_counterexample:
  "tag_string ld_script = Some ''{..}'' \<and>
   json_loads (ld_world (JList [JStr ''h://p/a.jpg''])) ''{..}'' =
     Inr (JDict [(''contentUrl'', JList [JStr ''h://p/a.jpg''])]) \<and>
   truthy (dict_get [(''contentUrl'', JList [JStr ''h://p/a.jpg''])] ''contentUrl'') \<and>
   script_try (ld_world (JList [JStr ''h://p/a.jpg''])) ld_script = Inl AttributeError \<and>
   script_loop (ld_world (JList [JStr ''h://p/a.jpg''])) [ld_script] [] = []"
  by (simp add: ld_world_def ld_script_def script_try_def dict_get_def)

text \<open>
  Claim C8, as amended. A script tag of type \<open>application/ld+json\<close> gives exactly one
  candidate when its string parses to an object whose \<open>contentUrl\<close> is a non-empty
  string: a video if the lower-cased URL has \<open>.mp4\<close>, \<open>.webm\<close> or \<open>.mov\<close> inside it, an
  image otherwise, with the URL as written. In every other case (no string, a parse
  error, a value that is not an object, no \<open>contentUrl\<close>, an empty one, or one that is
  not a string) the tag gives nothing, and the loop goes on with the next tag.
\<close>

theorem ld_json_content_url_candidate:
  "script_loop w [script] acc =
     (case tag_string script of
        None \<Rightarrow> acc
      | Some s \<Rightarrow>
          (case json_loads w s of
             Inl e \<Rightarrow> acc
           | Inr data \<Rightarrow>
               (case data of
                  JDict kvs \<Rightarrow>
                    (case map_of kvs ''contentUrl'' of
                       Some (JStr url) \<Rightarrow>
                         if url = [] then acc
                         else acc @
                           [(if (\<exists>ext \<in> {''.mp4'', ''.webm'', ''.mov''}.
                                   \<exists>pre post. lower url = pre @ ext @ post)
                             then VideoK else ImageK, url)]
                     | _ \<Rightarrow> acc)
                | _ \<Rightarrow> acc))) \<and>
   script_loop w (script # rest) acc = script_loop w rest (script_loop w [script] acc)"
proof -
  have set_exts: "set video_exts = {''.mp4'', ''.webm'', ''.mov''}"
    by (simp add: video_exts_def)
  have vid: "any_ext_in video_exts (lower url) \<longleftrightarrow>
      (\<exists>ext \<in> {''.mp4'', ''.webm'', ''.mov''}. \<exists>pre post. lower url = pre @ ext @ post)" for url
    unfolding any_ext_in_iff set_exts ..
  have body: "script_try w script =
     (case tag_string script of
        None \<Rightarrow> Inl TypeError
      | Some s \<Rightarrow>
          (case json_loads w s of
             Inl e \<Rightarrow> Inl e
           | Inr data \<Rightarrow>
               (case data of
                  JDict kvs \<Rightarrow>
                    (case map_of kvs ''contentUrl'' of
                       None \<Rightarrow> Inr []
                     | Some v \<Rightarrow>
                         if truthy v then
                           (case v of
                              JStr url \<Rightarrow>
                                Inr [(if any_ext_in video_exts (lower url) then VideoK else ImageK,
                                      url)]
                            | _ \<Rightarrow> Inl AttributeError)
                         else Inr [])
                | _ \<Rightarrow> Inr [])))"
    by (simp add: script_try_def dict_get_def Let_def split: option.splits sum.splits json.splits)
  have one: "script_loop w [script] acc =
     (case tag_string script of
        None \<Rightarrow> acc
      | Some s \<Rightarrow>
          (case json_loads w s of
             Inl e \<Rightarrow> acc
           | Inr data \<Rightarrow>
               (case data of
                  JDict kvs \<Rightarrow>
                    (case map_of kvs ''contentUrl'' of
                       Some (JStr url) \<Rightarrow>
                         if url = [] then acc
                         else acc @
                           [(if any_ext_in video_exts (lower url) then VideoK else ImageK, url)]
                     | _ \<Rightarrow> acc)
                | _ \<Rightarrow> acc)))"
    by (simp add: body split: option.splits sum.splits json.splits)
  have "script_loop w (script # rest) acc = script_loop w rest (script_loop w [script] acc)"
    by simp
  with one show ?thesis unfolding vid by (rule conjI)
qed

theorem ld_json_content_url_candidate_witness:
  "lower ''/v.MP4?a'' = ''/v'' @ ''.mp4'' @ ''?a'' \<and>
   script_loop (ld_world (JStr ''/v.MP4?a'')) [ld_script] [] = [(VideoK, ''/v.MP4?a'')] \<and>
   script_loop (ld_world (JStr ''/i.png'')) [ld_script] [] = [(ImageK, ''/i.png'')] \<and>
   script_loop (ld_world (JStr [])) [ld_script] [] = [] \<and>
   script_loop (ld_world (JStr ''/i.png'')) [Tag ''script'' [] [], ld_script] [] =
     [(ImageK, ''/i.png'')]"
proof -
  have low: "lower ''/v.MP4?a'' = ''/v'' @ ''.mp4'' @ ''?a''" by code_simp
  then have yes: "\<exists>ext \<in> {''.mp4'', ''.webm'', ''.mov''}.
      \<exists>pre post. lower ''/v.MP4?a'' = pre @ ext @ post"
    by blast
  have no: "\<not> (\<exists>ext \<in> {''.mp4'', ''.webm'', ''.mov''}.
      \<exists>pre post. lower ''/i.png'' = pre @ ext @ post)"
  proof -
    have "\<not> any_ext_in video_exts (lower ''/i.png'')" by code_simp
    then show ?thesis
      using any_ext_in_iff[of video_exts "lower ''/i.png''"] by (simp add: video_exts_def)
  qed
  have a: "script_loop (ld_world (JStr ''/v.MP4?a'')) [ld_script] [] = [(VideoK, ''/v.MP4?a'')]"
    using ld_json_content_url_candidate[of "ld_world (JStr ''/v.MP4?a'')" ld_script "[]"] yes
    by (simp add: ld_world_def ld_script_def)
  have b: "script_loop (ld_world (JStr ''/i.png'')) [ld_script] [] = [(ImageK, ''/i.png'')]"
    using ld_json_content_url_candidate[of "ld_world (JStr ''/i.png'')" ld_script "[]"] no
    by (simp add: ld_world_def ld_script_def)
  have c: "script_loop (ld_world (JStr [])) [ld_script] [] = []"
    using ld_json_content_url_candidate[of "ld_world (JStr [])" ld_script "[]"]
    by (simp add: ld_world_def ld_script_def)
  have d: "script_loop (ld_world (JStr ''/i.png'')) [Tag ''script'' [] [], ld_script] [] =
     [(ImageK, ''/i.png'')]"
    using ld_json_content_url_candidate[of "ld_world (JStr ''/i.png'')" "Tag ''script'' [] []" "[]"
        "[ld_script]"] b
    by simp
  from low a b c d show ?thesis by blast
qed

subsection \<open>Relative references in structured data\<close>

text \<open>
  Claim C5 at the page \<open>https://www.pinterest.com/pin/123/\<close>: the reference of the image
  tag is resolved against the page, the \<open>contentUrl\<close> of the structured-data block is
  appended as it is written (line 210 does not call \<open>urljoin\<close>) and stays relative.
\<close>

theorem ld_json_url_not_resolved:
  "html_parser pin_world ''<html>'' = Inr pin_soup \<and>
   extract_media pin_world ''https://www.pinterest.com/pin/123/'' pin_soup =
     Inr [(ImageK, ''https://www.pinterest.com/static/img1.png''),
          (ImageK, ''/static/img2.png'')]"
proof -
  have "html_parser pin_world ''<html>'' = Inr pin_soup"
    by (simp add: pin_world_def)
  moreover have "extract_media pin_world ''https://www.pinterest.com/pin/123/'' pin_soup =
     Inr [(ImageK, ''https://www.pinterest.com/static/img1.png''),
          (ImageK, ''/static/img2.png'')]"
    by code_simp
  ultimately show ?thesis by (rule conjI)
qed

subsection \<open>The free path\<close>

lemma unique_loop_spec:
  "p \<in> set existing \<Longrightarrow>
   \<exists>k \<ge> c. unique_loop existing d f p c = numbered d f k \<and> numbered d f k \<notin> set existing \<and>
     (\<forall>j. c \<le> j \<and> j < k \<longrightarrow> numbered d f j \<in> set existing)"
proof (induction existing d f p c rule: unique_loop.induct)
  case (1 existing d f p c)
  from "1.prems" have step: "unique_loop existing d f p c =
      unique_loop existing d f (numbered d f c) (c + 1)"
    by (subst unique_loop.simps) simp
  show ?case
  proof (cases "numbered d f c \<in> set existing")
    case False
    then have "unique_loop existing d f (numbered d f c) (c + 1) = numbered d f c"
      by (subst unique_loop.simps) simp
    with step False show ?thesis by (intro exI[of _ c]) auto
  next
    case True
    from "1.IH"[OF "1.prems" True] obtain k where k: "c + 1 \<le> k"
      and r: "unique_loop existing d f (numbered d f c) (c + 1) = numbered d f k"
      and free: "numbered d f k \<notin> set existing"
      and below: "\<forall>j. c + 1 \<le> j \<and> j < k \<longrightarrow> numbered d f j \<in> set existing"
      by blast
    have "\<forall>j. c \<le> j \<and> j < k \<longrightarrow> numbered d f j \<in> set existing"
    proof (intro allI impI)
      fix j assume "c \<le> j \<and> j < k"
      then show "numbered d f j \<in> set existing"
        using True below by (cases "j = c") auto
    qed
    with k r free step show ?thesis by (intro exI[of _ k]) auto
  qed
qed

lemma unique_loop_free: "p \<notin> set existing \<Longrightarrow> unique_loop existing d f p c = p"
  by (subst unique_loop.simps) simp

lemma numbered_splitext:
  "numbered d f k = join d (fst (splitext f) @ ''_'' @ str_nat k @ snd (splitext f))"
  by (simp add: numbered_def split: prod.splits)

lemma splitext_photo: "splitext ''photo.jpg'' = (''photo'', ''.jpg'')"
  by code_simp

text \<open>
  Claim C4. When the path of the derived name is free it is used. Otherwise the path
  used is \<open>name_k ext\<close> for the least \<open>k \<ge> 1\<close> whose path is free, where \<open>name\<close> and \<open>ext\<close>
  are the two parts \<open>splitext\<close> gives: the paths for 1, ..., k - 1 all exist. In
  particular, if \<open>photo.jpg\<close>, \<open>photo_1.jpg\<close>, ..., \<open>photo_(N-1).jpg\<close> exist and
  \<open>photo_N.jpg\<close> does not, the name \<open>photo.jpg\<close> is saved as \<open>photo_N.jpg\<close>.
\<close>

theorem collision_takes_first_free_number:
  "(join d f \<notin> set existing \<longrightarrow> unique_path existing d f = join d f) \<and>
   (join d f \<in> set existing \<longrightarrow>
      (\<exists>k \<ge> 1.
         unique_path existing d f =
           join d (fst (splitext f) @ ''_'' @ str_nat k @ snd (splitext f)) \<and>
         unique_path existing d f \<notin> set existing \<and>
         (\<forall>j. 1 \<le> j \<and> j < k \<longrightarrow>
            join d (fst (splitext f) @ ''_'' @ str_nat j @ snd (splitext f)) \<in> set existing))) \<and>
   (1 \<le> N \<longrightarrow> join d ''photo.jpg'' \<in> set existing \<longrightarrow>
    (\<forall>j. 1 \<le> j \<and> j < N \<longrightarrow> join d (''photo_'' @ str_nat j @ ''.jpg'') \<in> set existing) \<longrightarrow>
    join d (''photo_'' @ str_nat N @ ''.jpg'') \<notin> set existing \<longrightarrow>
      unique_path existing d ''photo.jpg'' = join d (''photo_'' @ str_nat N @ ''.jpg''))"
proof -
  have free: "join d f \<notin> set existing \<longrightarrow> unique_path existing d f = join d f"
    by (simp add: unique_path_def unique_loop_free)
  have taken: "\<exists>k \<ge> 1.
         unique_path existing d f =
           join d (fst (splitext f) @ ''_'' @ str_nat k @ snd (splitext f)) \<and>
         unique_path existing d f \<notin> set existing \<and>
         (\<forall>j. 1 \<le> j \<and> j < k \<longrightarrow>
            join d (fst (splitext f) @ ''_'' @ str_nat j @ snd (splitext f)) \<in> set existing)"
    if "join d f \<in> set existing" for f
    using unique_loop_spec[OF that, of 1 d f]
    by (auto simp: unique_path_def numbered_splitext)
  have photo: "unique_path existing d ''photo.jpg'' = join d (''photo_'' @ str_nat N @ ''.jpg'')"
    if n: "1 \<le> N" and p: "join d ''photo.jpg'' \<in> set existing"
      and below: "\<forall>j. 1 \<le> j \<and> j < N \<longrightarrow> join d (''photo_'' @ str_nat j @ ''.jpg'') \<in> set existing"
      and top: "join d (''photo_'' @ str_nat N @ ''.jpg'') \<notin> set existing"
  proof -
    from taken[OF p] obtain k where k: "1 \<le> k"
      and r: "unique_path existing d ''photo.jpg'' = join d (''photo_'' @ str_nat k @ ''.jpg'')"
      and rfree: "unique_path existing d ''photo.jpg'' \<notin> set existing"
      and kbelow: "\<forall>j. 1 \<le> j \<and> j < k \<longrightarrow> join d (''photo_'' @ str_nat j @ ''.jpg'') \<in> set existing"
      by (auto simp: splitext_photo)
    have "\<not> k < N" using below k r rfree by auto
    moreover have "\<not> N < k" using kbelow n top by auto
    ultimately have "k = N" by simp
    with r show ?thesis by simp
  qed
  from free taken photo show ?thesis by blast
qed

theorem collision_takes_first_free_number_witness:
  "(1::nat) \<le> 3 \<and>
   join ''/dl'' ''photo.jpg'' \<in> set [''/dl/photo.jpg'', ''/dl/photo_1.jpg'', ''/dl/photo_2.jpg''] \<and>
   join ''/dl'' (''photo_'' @ str_nat 1 @ ''.jpg'')
     \<in> set [''/dl/photo.jpg'', ''/dl/photo_1.jpg'', ''/dl/photo_2.jpg''] \<and>
   join ''/dl'' (''photo_'' @ str_nat 2 @ ''.jpg'')
     \<in> set [''/dl/photo.jpg'', ''/dl/photo_1.jpg'', ''/dl/photo_2.jpg''] \<and>
   join ''/dl'' (''photo_'' @ str_nat 3 @ ''.jpg'')
     \<notin> set [''/dl/photo.jpg'', ''/dl/photo_1.jpg'', ''/dl/photo_2.jpg''] \<and>
   unique_path [''/dl/photo.jpg'', ''/dl/photo_1.jpg'', ''/dl/photo_2.jpg''] ''/dl'' ''photo.jpg'' =
     ''/dl/photo_3.jpg'' \<and>
   unique_path [''/dl/photo_1.jpg''] ''/dl'' ''photo.jpg'' = ''/dl/photo.jpg''"
proof -
  let ?files = "[''/dl/photo.jpg'', ''/dl/photo_1.jpg'', ''/dl/photo_2.jpg'']"
  have n: "(1::nat) \<le> 3" by simp
  have p0: "join ''/dl'' ''photo.jpg'' \<in> set ?files" by code_simp
  have p1: "join ''/dl'' (''photo_'' @ str_nat 1 @ ''.jpg'') \<in> set ?files" by code_simp
  have p2: "join ''/dl'' (''photo_'' @ str_nat 2 @ ''.jpg'') \<in> set ?files" by code_simp
  have p3: "join ''/dl'' (''photo_'' @ str_nat 3 @ ''.jpg'') \<notin> set ?files" by code_simp
  have e3: "join ''/dl'' (''photo_'' @ str_nat 3 @ ''.jpg'') = ''/dl/photo_3.jpg''" by code_simp
  have below: "\<forall>j. 1 \<le> j \<and> j < 3 \<longrightarrow>
      join ''/dl'' (''photo_'' @ str_nat j @ ''.jpg'') \<in> set ?files"
  proof (intro allI impI)
    fix j :: nat assume "1 \<le> j \<and> j < 3"
    then have "j = 1 \<or> j = 2" by arith
    with p1 p2 show "join ''/dl'' (''photo_'' @ str_nat j @ ''.jpg'') \<in> set ?files" by blast
  qed
  have a: "unique_path ?files ''/dl'' ''photo.jpg'' = ''/dl/photo_3.jpg''"
  proof -
    have "unique_path ?files ''/dl'' ''photo.jpg'' = join ''/dl'' (''photo_'' @ str_nat 3 @ ''.jpg'')"
      using collision_takes_first_free_number[of "''/dl''" "''photo.jpg''" ?files 3,
          THEN conjunct2, THEN conjunct2] n p0 below p3
      by blast
    with e3 show ?thesis by (simp only:)
  qed
  have f0: "join ''/dl'' ''photo.jpg'' \<notin> set [''/dl/photo_1.jpg'']" by code_simp
  have e0: "join ''/dl'' ''photo.jpg'' = ''/dl/photo.jpg''" by code_simp
  have b: "unique_path [''/dl/photo_1.jpg''] ''/dl'' ''photo.jpg'' = ''/dl/photo.jpg''"
  proof -
    have "unique_path [''/dl/photo_1.jpg''] ''/dl'' ''photo.jpg'' = join ''/dl'' ''photo.jpg''"
      using collision_takes_first_free_number[of "''/dl''" "''photo.jpg''" "[''/dl/photo_1.jpg'']" 3,
          THEN conjunct1] f0
      by blast
    with e0 show ?thesis by (simp only:)
  qed
  from n p0 p1 p2 p3 a b show ?thesis by blast
qed

subsection \<open>The file name\<close>








end
